theory Spec2Isabelle
  imports Main
begin

unbundle bit_operations_syntax

section \<open>Python values used by fpgagen.py\<close>

text \<open>
  Python integers are unbounded, so every integer of the program is an \<open>int\<close>; the
  bitwise operators \<open>&\<close>, \<open>|\<close>, \<open><<\<close> and \<open>>>\<close> are \<open>AND\<close>, \<open>OR\<close>, \<open>push_bit\<close>
  and \<open>drop_bit\<close> on \<open>int\<close> (two's complement with infinitely many sign bits, as in
  Python). A string is the list of its characters, a character being a code point
  below 256; the model follows Python on such text.
  An exception is a value of \<open>py_error\<close>, and a function that may raise returns
  \<open>py_error + 'a\<close>.
\<close>

datatype py_error = ValueError | IndexError | KeyError

definition bindE :: "py_error + 'a \<Rightarrow> ('a \<Rightarrow> py_error + 'b) \<Rightarrow> py_error + 'b" where
  "bindE m f = (case m of Inl e \<Rightarrow> Inl e | Inr x \<Rightarrow> f x)"

text \<open>\<open>xs[i]\<close> for a non-negative constant index: IndexError out of range.\<close>

definition idx :: "'a list \<Rightarrow> nat \<Rightarrow> py_error + 'a" where
  "idx xs i = (if i < length xs then Inr (xs ! i) else Inl IndexError)"

subsection \<open>String methods\<close>

text \<open>
  \<open>str.isspace\<close> on one character, the whitespace of \<open>strip()\<close> and \<open>split()\<close>:
  TAB, LF, VT, FF, CR, FS, GS, RS, US, space, NEL (0x85) and the no-break space (0xA0).
\<close>

definition is_space :: "char \<Rightarrow> bool" where
  "is_space c =
     (let n = (of_char c :: nat)
      in (9 \<le> n \<and> n \<le> 13) \<or> (28 \<le> n \<and> n \<le> 32) \<or> n = 133 \<or> n = 160)"

text \<open>\<open>s.strip()\<close>\<close>

definition lstrip :: "string \<Rightarrow> string" where
  "lstrip s = dropWhile is_space s"

definition rstrip :: "string \<Rightarrow> string" where
  "rstrip s = rev (dropWhile is_space (rev s))"

definition strip :: "string \<Rightarrow> string" where
  "strip s = rstrip (lstrip s)"

text \<open>
  \<open>s.lower()\<close>: the capital letters A to Z, and those of the range 0xC0 to 0xDE (all
  but the multiplication sign 0xD7), move up by 32; nothing else below 256 changes.
\<close>

definition lower_char :: "char \<Rightarrow> char" where
  "lower_char c =
     (let n = (of_char c :: nat)
      in if (65 \<le> n \<and> n \<le> 90) \<or> (192 \<le> n \<and> n \<le> 222 \<and> n \<noteq> 215) then char_of (n + 32)
         else c)"

definition lower :: "string \<Rightarrow> string" where
  "lower s = map lower_char s"

text \<open>\<open>s.startswith(p)\<close>\<close>

definition startswith :: "string \<Rightarrow> string \<Rightarrow> bool" where
  "startswith s p = (take (length p) s = p)"

text \<open>\<open>s.split(sep)\<close> for a one-character separator: never the empty list.\<close>

fun split_sep :: "char \<Rightarrow> string \<Rightarrow> string \<Rightarrow> string list" where
  "split_sep sep cur [] = [cur]"
| "split_sep sep cur (c # cs) =
     (if c = sep then cur # split_sep sep [] cs else split_sep sep (cur @ [c]) cs)"

definition split_on :: "char \<Rightarrow> string \<Rightarrow> string list" where
  "split_on sep s = split_sep sep [] s"

text \<open>\<open>s.split()\<close>: the maximal runs of non-whitespace characters.\<close>

fun split_ws :: "string \<Rightarrow> string \<Rightarrow> string list" where
  "split_ws cur [] = (if cur = [] then [] else [cur])"
| "split_ws cur (c # cs) =
     (if is_space c then (if cur = [] then split_ws [] cs else cur # split_ws [] cs)
      else split_ws (cur @ [c]) cs)"

definition split :: "string \<Rightarrow> string list" where
  "split s = split_ws [] s"

text \<open>\<open>s.replace(',', ' ')\<close>\<close>

definition replace_comma :: "string \<Rightarrow> string" where
  "replace_comma s = map (\<lambda>c. if c = CHR '','' then CHR '' '' else c) s"

subsection \<open>\<open>int(s)\<close> and \<open>int(s, 0)\<close>\<close>

text \<open>
  CPython's integer parser: surrounding whitespace is dropped, then an optional sign,
  then (base 0 only) a prefix \<open>0x\<close>, \<open>0o\<close> or \<open>0b\<close> in either case, optionally
  followed by one underscore, then digits of the base with single underscores between
  them. In base 0 a decimal literal with a leading zero must be zero. When the base is
  not a power of two, a literal of more than 4300 digits (the interpreter's default
  limit, which the program never changes) is refused. Anything else is ValueError
  (here \<open>None\<close>).

  The whitespace \<open>int\<close> drops is not that of \<open>strip()\<close>: it is the C whitespace
  TAB, LF, VT, FF, CR and space, and the whitespace beyond ASCII (NEL, no-break space),
  which \<open>int\<close> first turns into spaces. FS, GS, RS and US are not dropped, so they
  make the literal invalid.
\<close>

definition is_int_space :: "char \<Rightarrow> bool" where
  "is_int_space c =
     (let n = (of_char c :: nat) in (9 \<le> n \<and> n \<le> 13) \<or> n = 32 \<or> n = 133 \<or> n = 160)"

definition int_strip :: "string \<Rightarrow> string" where
  "int_strip s = rev (dropWhile is_int_space (rev (dropWhile is_int_space s)))"

definition max_str_digits :: nat where
  "max_str_digits = 4300"

definition digit_val :: "char \<Rightarrow> nat option" where
  "digit_val c =
     (let n = (of_char c :: nat) in
      if 48 \<le> n \<and> n \<le> 57 then Some (n - 48)
      else if 97 \<le> n \<and> n \<le> 122 then Some (n - 87)
      else if 65 \<le> n \<and> n \<le> 90 then Some (n - 55)
      else None)"

fun digits_acc :: "nat \<Rightarrow> bool \<Rightarrow> int \<Rightarrow> string \<Rightarrow> int option" where
  "digits_acc b prev_us acc [] = (if prev_us then None else Some acc)"
| "digits_acc b prev_us acc (c # cs) =
     (if c = CHR ''_'' then (if prev_us then None else digits_acc b True acc cs)
      else (case digit_val c of
              None \<Rightarrow> None
            | Some d \<Rightarrow> if d < b then digits_acc b False (acc * int b + int d) cs else None))"

definition parse_digits :: "nat \<Rightarrow> string \<Rightarrow> int option" where
  "parse_digits b s =
     (case s of [] \<Rightarrow> None
      | c # cs \<Rightarrow>
          if c = CHR ''_'' then None
          else if b \<notin> set [2, 4, 8, 16, 32]
                  \<and> max_str_digits < length (filter (\<lambda>d. d \<noteq> CHR ''_'') s) then None
          else digits_acc b False 0 s)"

definition parse_unsigned :: "nat \<Rightarrow> string \<Rightarrow> int option" where
  "parse_unsigned base s =
     (if base = 0 then
        (case s of
           c0 # c1 # rest \<Rightarrow>
             (if c0 = CHR ''0'' \<and> (c1 = CHR ''x'' \<or> c1 = CHR ''X'') then
                parse_digits 16 (case rest of c # r \<Rightarrow> if c = CHR ''_'' then r else rest | [] \<Rightarrow> rest)
              else if c0 = CHR ''0'' \<and> (c1 = CHR ''o'' \<or> c1 = CHR ''O'') then
                parse_digits 8 (case rest of c # r \<Rightarrow> if c = CHR ''_'' then r else rest | [] \<Rightarrow> rest)
              else if c0 = CHR ''0'' \<and> (c1 = CHR ''b'' \<or> c1 = CHR ''B'') then
                parse_digits 2 (case rest of c # r \<Rightarrow> if c = CHR ''_'' then r else rest | [] \<Rightarrow> rest)
              else if c0 = CHR ''0'' then
                (case parse_digits 10 s of
                   Some n \<Rightarrow> if n = 0 then Some 0 else None
                 | None \<Rightarrow> None)
              else parse_digits 10 s)
         | _ \<Rightarrow> parse_digits 10 s)
      else parse_digits base s)"

definition py_int :: "nat \<Rightarrow> string \<Rightarrow> int option" where
  "py_int base s =
     (case int_strip s of
        [] \<Rightarrow> None
      | c # cs \<Rightarrow>
          if c = CHR ''-'' then map_option uminus (parse_unsigned base cs)
          else if c = CHR ''+'' then parse_unsigned base cs
          else parse_unsigned base (c # cs))"

text \<open>\<open>int(s)\<close> and \<open>int(s, 0)\<close> as the program calls them.\<close>

definition int10 :: "string \<Rightarrow> py_error + int" where
  "int10 s = (case py_int 10 s of None \<Rightarrow> Inl ValueError | Some n \<Rightarrow> Inr n)"

definition int0 :: "string \<Rightarrow> py_error + int" where
  "int0 s = (case py_int 0 s of None \<Rightarrow> Inl ValueError | Some n \<Rightarrow> Inr n)"

section \<open>The assembler (class RISCVAssembler)\<close>

text \<open>
  The instance state set up by \<open>__init__\<close>. Only \<open>labels\<close> is ever read or written
  by the methods; \<open>assemble\<close> updates it in place and never clears it.
\<close>

record assembler =
  labels :: "string \<rightharpoonup> int"
  instructions :: "int list"
  pc :: int

definition init :: assembler where
  "init = \<lparr>labels = Map.empty, instructions = [], pc = 0\<rparr>"

subsection \<open>\<open>_parse_register\<close>\<close>

definition reg_map :: "string \<rightharpoonup> int" where
  "reg_map = map_of
     [(''zero'', 0), (''ra'', 1), (''sp'', 2), (''gp'', 3), (''tp'', 4),
      (''t0'', 5), (''t1'', 6), (''t2'', 7), (''s0'', 8), (''fp'', 8),
      (''s1'', 9), (''a0'', 10), (''a1'', 11), (''a2'', 12), (''a3'', 13),
      (''a4'', 14), (''a5'', 15), (''a6'', 16), (''a7'', 17),
      (''s2'', 18), (''s3'', 19), (''s4'', 20), (''s5'', 21),
      (''s6'', 22), (''s7'', 23), (''s8'', 24), (''s9'', 25),
      (''s10'', 26), (''s11'', 27), (''t3'', 28), (''t4'', 29),
      (''t5'', 30), (''t6'', 31)]"

definition parse_register :: "string \<Rightarrow> py_error + int" where
  "parse_register reg0 =
     (let reg = strip (lower reg0) in
      if startswith reg ''x'' then int10 (drop 1 reg)
      else Inr (case reg_map reg of Some n \<Rightarrow> n | None \<Rightarrow> 0))"

subsection \<open>The encoders\<close>

text \<open>
  The target of a branch or of \<open>jal\<close>: a label of the instance's table gives
  \<open>labels[target] - pc\<close>, anything else goes to \<open>int(target, 0)\<close>.
\<close>

definition resolve_offset :: "(string \<rightharpoonup> int) \<Rightarrow> string \<Rightarrow> int \<Rightarrow> py_error + int" where
  "resolve_offset lbls target pc0 =
     (case lbls target of Some a \<Rightarrow> Inr (a - pc0) | None \<Rightarrow> int0 target)"

definition branch_funct3 :: "string \<Rightarrow> int" where
  "branch_funct3 opcode =
     (case map_of [(''beq'', 0), (''bne'', 1), (''blt'', 4), (''bge'', 5)] opcode of
        Some f \<Rightarrow> f | None \<Rightarrow> 0)"

definition encode_branch :: "(string \<rightharpoonup> int) \<Rightarrow> string \<Rightarrow> string list \<Rightarrow> int \<Rightarrow> py_error + int" where
  "encode_branch lbls opcode operands pc0 =
     bindE (idx operands 0) (\<lambda>o0. bindE (parse_register o0) (\<lambda>rs1.
     bindE (idx operands 1) (\<lambda>o1. bindE (parse_register o1) (\<lambda>rs2.
     bindE (idx operands 2) (\<lambda>target.
     bindE (resolve_offset lbls target pc0) (\<lambda>offset.
       let funct3 = branch_funct3 opcode;
           imm12 = offset AND 0x1000;
           imm10_5 = push_bit 20 (offset AND 0x7E0);
           imm4_1 = push_bit 7 (offset AND 0x1E);
           imm11 = drop_bit 4 (offset AND 0x800)
       in Inr (0x63 OR push_bit 12 funct3 OR push_bit 15 rs1 OR push_bit 20 rs2
                 OR imm4_1 OR imm11 OR imm10_5 OR imm12)))))))"

definition encode_jump :: "(string \<rightharpoonup> int) \<Rightarrow> string \<Rightarrow> string list \<Rightarrow> int \<Rightarrow> py_error + int" where
  "encode_jump lbls opcode operands pc0 =
     (if opcode = ''jal'' then
        bindE (idx operands 0) (\<lambda>o0. bindE (parse_register o0) (\<lambda>rd.
        bindE (idx operands 1) (\<lambda>target.
        bindE (resolve_offset lbls target pc0) (\<lambda>offset.
          Inr (0x6F OR push_bit 7 rd OR (offset AND 0xFFFFF000))))))
      else
        bindE (idx operands 0) (\<lambda>o0. bindE (parse_register o0) (\<lambda>rd.
        bindE (idx operands 1) (\<lambda>o1. bindE (parse_register o1) (\<lambda>rs1.
        bindE (if length operands > 2 then bindE (idx operands 2) int0 else Inr 0) (\<lambda>offset.
          Inr (0x67 OR push_bit 7 rd OR push_bit 12 0 OR push_bit 15 rs1
                 OR push_bit 20 (offset AND 0xFFF))))))))"

definition rtype_funct3 :: "string \<rightharpoonup> int" where
  "rtype_funct3 = map_of [(''add'', 0), (''sub'', 0), (''and'', 7), (''or'', 6), (''xor'', 4)]"

definition rtype_funct7 :: "string \<rightharpoonup> int" where
  "rtype_funct7 = map_of [(''add'', 0), (''sub'', 0x20), (''and'', 0), (''or'', 0), (''xor'', 0)]"

definition encode_rtype :: "string \<Rightarrow> string list \<Rightarrow> py_error + int" where
  "encode_rtype opcode operands =
     bindE (idx operands 0) (\<lambda>o0. bindE (parse_register o0) (\<lambda>rd.
     bindE (idx operands 1) (\<lambda>o1. bindE (parse_register o1) (\<lambda>rs1.
     bindE (idx operands 2) (\<lambda>o2. bindE (parse_register o2) (\<lambda>rs2.
       case rtype_funct3 opcode of
         None \<Rightarrow> Inl KeyError
       | Some f3 \<Rightarrow>
           (case rtype_funct7 opcode of
              None \<Rightarrow> Inl KeyError
            | Some f7 \<Rightarrow>
                Inr (0x33 OR push_bit 7 rd OR push_bit 12 f3 OR push_bit 15 rs1
                       OR push_bit 20 rs2 OR push_bit 25 f7))))))))"

definition itype_funct3 :: "string \<rightharpoonup> int" where
  "itype_funct3 = map_of [(''addi'', 0), (''andi'', 7), (''ori'', 6), (''xori'', 4)]"

definition encode_itype :: "string \<Rightarrow> string list \<Rightarrow> py_error + int" where
  "encode_itype opcode operands =
     bindE (idx operands 0) (\<lambda>o0. bindE (parse_register o0) (\<lambda>rd.
     bindE (idx operands 1) (\<lambda>o1. bindE (parse_register o1) (\<lambda>rs1.
     bindE (idx operands 2) (\<lambda>o2. bindE (int0 o2) (\<lambda>imm.
       case itype_funct3 opcode of
         None \<Rightarrow> Inl KeyError
       | Some f3 \<Rightarrow>
           Inr (0x13 OR push_bit 7 rd OR push_bit 12 f3 OR push_bit 15 rs1
                  OR push_bit 20 (imm AND 0xFFF))))))))"

subsection \<open>\<open>assemble\<close>\<close>

text \<open>
  The test both passes make on a stripped line: blank, or a comment line (one that
  starts with \<open>#\<close>).
\<close>

definition blank_or_comment :: "string \<Rightarrow> bool" where
  "blank_or_comment line = (line = [] \<or> startswith line ''#'')"

text \<open>\<open>line.split(':')[0].strip()\<close>\<close>

definition label_of :: "string \<Rightarrow> string" where
  "label_of line = strip (case split_on CHR '':'' line of x # _ \<Rightarrow> x | [] \<Rightarrow> [])"

text \<open>First pass: the loop over the lines, \<open>self.labels\<close> and \<open>current_pc\<close> as state.\<close>

fun first_pass :: "(string \<rightharpoonup> int) \<Rightarrow> int \<Rightarrow> string list \<Rightarrow> (string \<rightharpoonup> int)" where
  "first_pass lbls current_pc [] = lbls"
| "first_pass lbls current_pc (l # ls) =
     (let line = strip l in
      if blank_or_comment line then first_pass lbls current_pc ls
      else if CHR '':'' \<in> set line then first_pass (lbls(label_of line \<mapsto> current_pc)) current_pc ls
      else first_pass lbls (current_pc + 4) ls)"

text \<open>The body of the second loop for one instruction line (already stripped).\<close>

definition encode_line :: "(string \<rightharpoonup> int) \<Rightarrow> string \<Rightarrow> int \<Rightarrow> py_error + int" where
  "encode_line lbls line current_pc =
     (let parts = split (replace_comma line) in
      bindE (idx parts 0) (\<lambda>p0.
        let opcode = lower p0 in
        if opcode \<in> set [''beq'', ''bne'', ''blt'', ''bge''] then
          encode_branch lbls opcode (drop 1 parts) current_pc
        else if opcode \<in> set [''jal'', ''jalr''] then
          encode_jump lbls opcode (drop 1 parts) current_pc
        else if opcode \<in> set [''add'', ''sub'', ''and'', ''or'', ''xor''] then
          encode_rtype opcode (drop 1 parts)
        else if opcode \<in> set [''addi'', ''andi'', ''ori'', ''xori''] then
          encode_itype opcode (drop 1 parts)
        else if opcode = ''nop'' then Inr 0x00000013
        else Inr 0x00000013))"

text \<open>
  Second pass: \<open>machine_code\<close> and \<open>current_pc\<close> as state; the first exception ends
  the loop and nothing is returned.
\<close>

fun second_pass :: "(string \<rightharpoonup> int) \<Rightarrow> int \<Rightarrow> int list \<Rightarrow> string list \<Rightarrow> py_error + int list" where
  "second_pass lbls current_pc machine_code [] = Inr machine_code"
| "second_pass lbls current_pc machine_code (l # ls) =
     (let line = strip l in
      if blank_or_comment line \<or> CHR '':'' \<in> set line then
        second_pass lbls current_pc machine_code ls
      else
        bindE (encode_line lbls line current_pc) (\<lambda>code.
          second_pass lbls (current_pc + 4) (machine_code @ [code]) ls))"

text \<open>
  \<open>assemble\<close> on an instance: the result (the word list, or the exception) and the
  instance afterwards. The labels of the first pass are stored in the instance before
  the second pass runs, so they stay there when the second pass raises.
\<close>

definition assemble :: "assembler \<Rightarrow> string \<Rightarrow> (py_error + int list) \<times> assembler" where
  "assemble self assembly_code =
     (let lines = split_on CHR ''\<newline>'' (strip assembly_code);
          lbls = first_pass (labels self) 0 lines
      in (second_pass lbls 0 [] lines, self\<lparr>labels := lbls\<rparr>))"

section \<open>Static branch facts (BranchTraceParser.generate_from_assembly)\<close>

text \<open>A fact is the tuple \<open>(pc, taken, target)\<close>.\<close>

type_synonym fact = "int \<times> bool \<times> int"

text \<open>The loop over \<open>enumerate(machine_code)\<close>, with \<open>i\<close>, \<open>pc\<close> and \<open>branches\<close> as state.\<close>

fun derive_loop :: "nat \<Rightarrow> int \<Rightarrow> fact list \<Rightarrow> int list \<Rightarrow> fact list" where
  "derive_loop i pc0 branches [] = branches"
| "derive_loop i pc0 branches (inst # rest) =
     (let opcode = inst AND 0x7F in
      if opcode = 0x63 then
        (let imm12 = drop_bit 31 inst AND 0x1;
             imm10_5 = drop_bit 25 inst AND 0x3F;
             imm4_1 = drop_bit 8 inst AND 0xF;
             imm11 = drop_bit 7 inst AND 0x1;
             offset = push_bit 12 imm12 OR push_bit 11 imm11 OR push_bit 5 imm10_5 OR push_bit 1 imm4_1;
             offset = (if imm12 \<noteq> 0 then offset OR 0xFFFFE000 else offset);
             target = (pc0 + offset) AND 0xFFFFFFFF;
             taken = (i mod 2 = 0)
         in derive_loop (i + 1) (pc0 + 4) (branches @ [(pc0, taken, target)]) rest)
      else if opcode = 0x6F then
        (let imm20 = drop_bit 31 inst AND 0x1;
             imm10_1 = drop_bit 21 inst AND 0x3FF;
             imm11 = drop_bit 20 inst AND 0x1;
             imm19_12 = drop_bit 12 inst AND 0xFF;
             offset = push_bit 20 imm20 OR push_bit 12 imm19_12 OR push_bit 11 imm11 OR push_bit 1 imm10_1;
             offset = (if imm20 \<noteq> 0 then offset OR 0xFFE00000 else offset);
             target = (pc0 + offset) AND 0xFFFFFFFF
         in derive_loop (i + 1) (pc0 + 4) (branches @ [(pc0, True, target)]) rest)
      else derive_loop (i + 1) (pc0 + 4) branches rest)"

definition generate_from_assembly :: "int list \<Rightarrow> fact list" where
  "generate_from_assembly machine_code = derive_loop 0 0 [] machine_code"

section \<open>The branch table (generate_branch_mem)\<close>





section \<open>Notions used to state the properties\<close>

text \<open>
  What one iteration of the loop of \<open>generate_from_assembly\<close> appends to
  \<open>branches\<close> for the word \<open>inst\<close> at index \<open>i\<close> and address \<open>pc0\<close>: the loop
  body on its own.
\<close>

definition word_facts :: "nat \<Rightarrow> int \<Rightarrow> int \<Rightarrow> fact list" where
  "word_facts i pc0 inst =
     (let opcode = inst AND 0x7F in
      if opcode = 0x63 then
        (let imm12 = drop_bit 31 inst AND 0x1;
             imm10_5 = drop_bit 25 inst AND 0x3F;
             imm4_1 = drop_bit 8 inst AND 0xF;
             imm11 = drop_bit 7 inst AND 0x1;
             offset = push_bit 12 imm12 OR push_bit 11 imm11 OR push_bit 5 imm10_5 OR push_bit 1 imm4_1;
             offset = (if imm12 \<noteq> 0 then offset OR 0xFFFFE000 else offset);
             target = (pc0 + offset) AND 0xFFFFFFFF;
             taken = (i mod 2 = 0)
         in [(pc0, taken, target)])
      else if opcode = 0x6F then
        (let imm20 = drop_bit 31 inst AND 0x1;
             imm10_1 = drop_bit 21 inst AND 0x3FF;
             imm11 = drop_bit 20 inst AND 0x1;
             imm19_12 = drop_bit 12 inst AND 0xFF;
             offset = push_bit 20 imm20 OR push_bit 12 imm19_12 OR push_bit 11 imm11 OR push_bit 1 imm10_1;
             offset = (if imm20 \<noteq> 0 then offset OR 0xFFE00000 else offset);
             target = (pc0 + offset) AND 0xFFFFFFFF
         in [(pc0, True, target)])
      else [])"

text \<open>The facts of a fact list recorded at address \<open>a\<close>.\<close>

definition facts_at :: "int \<Rightarrow> fact list \<Rightarrow> fact list" where
  "facts_at a fs = filter (\<lambda>f. fst f = a) fs"

text \<open>
  The J-type immediate of base RISC-V as a signed number: imm[20] is word bit 31,
  imm[19:12] are word bits 19:12, imm[11] is word bit 20, imm[10:1] are word bits 30:21,
  imm[0] is 0, and bit 20 is the sign.
\<close>

definition j_immediate :: "int \<Rightarrow> int" where
  "j_immediate w =
     2 ^ 12 * ((w div 2 ^ 12) mod 2 ^ 8) + 2 ^ 11 * ((w div 2 ^ 20) mod 2)
       + 2 * ((w div 2 ^ 21) mod 2 ^ 10) - 2 ^ 20 * ((w div 2 ^ 31) mod 2)"

text \<open>
  The JAL target in the specification's words: \<open>offset = word & 0xFFFFF000\<close>,
  sign-extended from bit 31 of the 32-bit word, added to the address modulo 2^32.
\<close>

definition spec_jal_target :: "int \<Rightarrow> int \<Rightarrow> int" where
  "spec_jal_target pc0 w =
     (pc0 + (if bit w 31 then (w AND 0xFFFFF000) - 2 ^ 32 else w AND 0xFFFFF000)) mod 2 ^ 32"

text \<open>An ASCII decimal digit, and the number a string of decimal digits denotes.\<close>

definition is_digit :: "char \<Rightarrow> bool" where
  "is_digit c = (c \<in> set ''0123456789'')"

definition decimal :: "string \<Rightarrow> int" where
  "decimal ds = foldl (\<lambda>a c. 10 * a + (of_char c - 48)) 0 ds"

text \<open>
  The operands an encoder reads for a mnemonic (already in lower case): the dispatch
  of \<open>assemble\<close> with, for each class, the highest operand index its encoder touches
  plus one. \<open>jalr\<close> reads its third operand whenever there is one.
\<close>

definition operands_read :: "string \<Rightarrow> nat" where
  "operands_read opcode =
     (if opcode \<in> set [''beq'', ''bne'', ''blt'', ''bge''] then 3
      else if opcode = ''jal'' then 2
      else if opcode = ''jalr'' then 3
      else if opcode \<in> set [''add'', ''sub'', ''and'', ''or'', ''xor''] then 3
      else if opcode \<in> set [''addi'', ''andi'', ''ori'', ''xori''] then 3
      else 0)"

text \<open>
  A line for which the second pass emits a word: after stripping it is not blank, does
  not start with \<open>#\<close> and contains no \<open>:\<close>.
\<close>

definition instruction_line :: "string \<Rightarrow> bool" where
  "instruction_line l = (\<not> blank_or_comment (strip l) \<and> CHR '':'' \<notin> set (strip l))"

section \<open>Programs used as test inputs\<close>

text \<open>The text \<open>example_asm\<close> that \<open>main\<close> assembles under \<open>--example\<close>.\<close>

definition example_asm :: string where
  "example_asm =
     ''\<newline>'' @
     ''# Example RISC-V Assembly Program\<newline>'' @
     ''# Simple loop with branches\<newline>'' @
     ''\<newline>'' @
     ''        addi x1, x0, 10      # x1 = 10 (loop counter)\<newline>'' @
     ''        addi x2, x0, 0       # x2 = 0 (sum)\<newline>'' @
     ''        \<newline>'' @
     ''loop:\<newline>'' @
     ''        addi x2, x2, 1       # sum++\<newline>'' @
     ''        addi x1, x1, -1      # counter--\<newline>'' @
     ''        bne x1, x0, loop     # if counter != 0, goto loop\<newline>'' @
     ''        \<newline>'' @
     ''        addi x3, x0, 100     # x3 = 100\<newline>'' @
     ''        addi x4, x0, 50      # x4 = 50\<newline>'' @
     ''        \<newline>'' @
     ''        blt x4, x3, taken    # if x4 < x3, goto taken\<newline>'' @
     ''        addi x5, x0, 1       # not taken path\<newline>'' @
     ''        jal x0, end\<newline>'' @
     ''        \<newline>'' @
     ''taken:\<newline>'' @
     ''        addi x5, x0, 2       # taken path\<newline>'' @
     ''        \<newline>'' @
     ''end:\<newline>'' @
     ''        addi x6, x0, 0       # end marker\<newline>'' @
     ''        beq x0, x0, end      # infinite loop\<newline>''"

text \<open>The five-instruction loop of the specification's end-to-end example.\<close>

definition loop_program :: string where
  "loop_program =
     ''addi x1, x0, 10\<newline>'' @
     ''addi x2, x0, 0\<newline>'' @
     ''loop:\<newline>'' @
     ''addi x2, x2, 1\<newline>'' @
     ''addi x1, x1, -1\<newline>'' @
     ''bne x1, x0, loop''"

section \<open>The encoder and the decoder on concrete programs\<close>

text \<open>
  Claim C1 (round trip: a branch or JAL encoded at address A with target T decodes, at
  the same address, to T mod 2^32). The program's own example breaks it. Its labels are
  \<open>loop\<close> = 8, \<open>taken\<close> = 40 and \<open>end\<close> = 44, yet the facts derived from the
  assembled words send the backward \<open>bne\<close> at 16 to 4104 instead of 8, the
  \<open>jal\<close> at 36 to 36 instead of 44 and the backward \<open>beq\<close> at 48 to 4140 instead
  of 44; only the forward \<open>blt\<close> at 28 reaches its label. The branch encoder leaves
  offset bit 12 at word bit 12 where the decoder reads word bit 31, and the JAL encoder
  stores \<open>offset & 0xFFFFF000\<close> where the decoder reads the scattered J-immediate.
\<close>

theorem example_round_trip_broken:
  "(let run = assemble init example_asm in
      fst run =
        Inr [0x00A00093, 0x00000113, 0x00110113, 0xFFF08093, 0x7E009CE3, 0x06400193,
             0x03200213, 0x00324663, 0x00100293, 0x0000006F, 0x00200293, 0x00000313,
             0x7E001EE3]
      \<and> map (labels (snd run)) [''loop'', ''taken'', ''end''] = [Some 8, Some 40, Some 44]
      \<and> generate_from_assembly (projr (fst run))
          = [(16, True, 4104), (28, False, 40), (36, True, 36), (48, True, 4140)])"
  by code_simp

text \<open>
  Claim C2 (the five-instruction loop assembles to 5 words, and its \<open>bne\<close> word
  decodes to the address of \<open>loop\<close>, 8). The program does assemble to five words, the
  first pass puts \<open>loop\<close> at 8 and the \<open>bne\<close> is the fifth word, at address 16; but
  the fact derived for it has target 4104, that is, decoded offset 4088 instead of
  8 - 16 = -8: the branch encoder left bit 12 of the offset at word bit 12, so word bit
  31, which the decoder reads as the sign, is clear.
\<close>

theorem loop_program_decodes_to_4104:
  "(let run = assemble init loop_program in
      fst run = Inr [0x00A00093, 0x00000113, 0x00110113, 0xFFF08093, 0x7E009CE3]
      \<and> labels (snd run) ''loop'' = Some 8
      \<and> generate_from_assembly (projr (fst run)) = [(16, True, 4104)]
      \<and> \<not> bit (projr (fst run) ! 4) 31)"
  by code_simp

text \<open>
  Claim C3 (B-type layout: offset bit 12 at word bit 31, funct3 undisturbed). For
  \<open>beq x0, x0, -8\<close> the offset has bit 12 set, but the encoded word has bit 31 clear
  and its funct3 field (bits 14:12) holds 1, the code of \<open>bne\<close>, although the funct3
  of \<open>beq\<close> is 0: offset bit 12 is left at word bit 12.
\<close>

theorem encode_branch_bit12_stays_at_bit12:
  "encode_branch Map.empty ''beq'' [''x0'', ''x0'', ''-8''] 0 = Inr 0x7E001CE3
   \<and> bit (- 8 :: int) 12
   \<and> \<not> bit (0x7E001CE3 :: int) 31
   \<and> drop_bit 12 (0x7E001CE3 :: int) AND 0x7 = 1
   \<and> branch_funct3 ''beq'' = 0"
  by code_simp

section \<open>The static deriver, word by word\<close>

lemma derive_loop_step:
  "derive_loop i p bs (w # ws) = derive_loop (i + 1) (p + 4) (bs @ word_facts i p w) ws"
  by (simp add: word_facts_def Let_def)

lemma derive_loop_concat:
  "derive_loop i p bs ws
     = bs @ concat (map (\<lambda>k. word_facts (i + k) (p + 4 * int k) (ws ! k)) [0..<length ws])"
proof (induction ws arbitrary: i p bs)
  case Nil
  show ?case by simp
next
  case (Cons w ws)
  have "map (\<lambda>k. word_facts (i + k) (p + 4 * int k) ((w # ws) ! k)) [0..<length (w # ws)]
        = word_facts i p w # map (\<lambda>k. word_facts (Suc i + k) (p + 4 + 4 * int k) (ws ! k)) [0..<length ws]"
    by (simp add: upt_conv_Cons map_Suc_upt [symmetric] del: upt_Suc) (simp add: algebra_simps)
  then show ?case
    unfolding derive_loop_step by (simp add: Cons.IH)
qed

lemma word_facts_addr: "f \<in> set (word_facts i p w) \<Longrightarrow> fst f = p"
  by (auto simp: word_facts_def Let_def split: if_splits)

lemma concat_single_index:
  "concat (map (\<lambda>j. if j = k then x else []) [0..<n]) = (if k < n then x else [])"
  by (induction n) auto

lemma filter_concat_single:
  assumes "k < n" and "\<And>j f. j < n \<Longrightarrow> f \<in> set (g j) \<Longrightarrow> P f \<longleftrightarrow> j = k"
  shows "filter P (concat (map g [0..<n])) = g k"
proof -
  have "map (filter P \<circ> g) [0..<n] = map (\<lambda>j. if j = k then g k else []) [0..<n]"
  proof (rule map_cong [OF refl])
    fix j assume "j \<in> set [0..<n]"
    then have j: "j < n" by simp
    show "(filter P \<circ> g) j = (if j = k then g k else [])"
      using assms(2) [OF j] by (auto simp: filter_empty_conv filter_id_conv)
  qed
  then have "concat (map (filter P \<circ> g) [0..<n]) = g k"
    using assms(1) by (simp only: concat_single_index if_True)
  then show ?thesis
    by (simp only: filter_concat map_map)
qed

lemma facts_at_index:
  assumes "i < length ws"
  shows "facts_at (4 * int i) (generate_from_assembly ws) = word_facts i (4 * int i) (ws ! i)"
proof -
  have "filter (\<lambda>f. fst f = 4 * int i)
          (concat (map (\<lambda>k. word_facts k (4 * int k) (ws ! k)) [0..<length ws]))
        = word_facts i (4 * int i) (ws ! i)"
    by (rule filter_concat_single [OF assms]) (auto dest: word_facts_addr)
  then show ?thesis
    by (simp add: generate_from_assembly_def derive_loop_concat facts_at_def)
qed

lemma and_numeral_mask:
  "(x::int) AND 0x1 = x mod 2" "(x::int) AND 0xFF = x mod 2 ^ 8" "(x::int) AND 0x3FF = x mod 2 ^ 10"
  "(x::int) AND 0x3F = x mod 2 ^ 6" "(x::int) AND 0xF = x mod 2 ^ 4" "(x::int) AND 0xFFFFFFFF = x mod 2 ^ 32"
  "(x::int) AND 0x7F = x mod 2 ^ 7" "(x::int) AND 0x1F = x mod 2 ^ 5"  "(x::int) AND 0x7 = x mod 2 ^ 3"
proof -
  have m: "\<And>n. (x::int) AND mask n = x mod 2 ^ n"
    by (simp add: take_bit_eq_mod flip: take_bit_eq_mask)
  show "(x::int) AND 0x1 = x mod 2" using m [of 1] by (simp add: mask_eq_exp_minus_1)
  show "(x::int) AND 0xFF = x mod 2 ^ 8" using m [of 8] by (simp add: mask_eq_exp_minus_1)
  show "(x::int) AND 0x3FF = x mod 2 ^ 10" using m [of 10] by (simp add: mask_eq_exp_minus_1)
  show "(x::int) AND 0x3F = x mod 2 ^ 6" using m [of 6] by (simp add: mask_eq_exp_minus_1)
  show "(x::int) AND 0xF = x mod 2 ^ 4" using m [of 4] by (simp add: mask_eq_exp_minus_1)
  show "(x::int) AND 0xFFFFFFFF = x mod 2 ^ 32" using m [of 32] by (simp add: mask_eq_exp_minus_1)
  show "(x::int) AND 0x7F = x mod 2 ^ 7" using m [of 7] by (simp add: mask_eq_exp_minus_1)
  show "(x::int) AND 0x1F = x mod 2 ^ 5" using m [of 5] by (simp add: mask_eq_exp_minus_1)
  show "(x::int) AND 0x7 = x mod 2 ^ 3" using m [of 3] by (simp add: mask_eq_exp_minus_1)
qed

lemma or_push_add:
  fixes lo hi :: int
  assumes "0 \<le> lo" "lo < 2 ^ n"
  shows "push_bit n hi OR lo = push_bit n hi + lo"
proof -
  have "take_bit n lo = lo" using assms by (simp add: take_bit_int_eq_self)
  then have "push_bit n hi OR lo = concat_bit n lo hi"
    by (simp add: concat_bit_def or.commute)
  also have "\<dots> = take_bit n lo + push_bit n hi" by (rule concat_bit_eq)
  finally show ?thesis using \<open>take_bit n lo = lo\<close> by simp
qed

lemma jal_offset_sum:
  fixes w :: int
  defines "a \<equiv> (w div 2 ^ 21) mod 2 ^ 10" and "b \<equiv> (w div 2 ^ 20) mod 2"
    and "c \<equiv> (w div 2 ^ 12) mod 2 ^ 8" and "d \<equiv> (w div 2 ^ 31) mod 2"
  shows "push_bit 20 d OR push_bit 12 c OR push_bit 11 b OR push_bit 1 a
         = 2 ^ 20 * d + 2 ^ 12 * c + 2 ^ 11 * b + 2 * a"
proof -
  have ra: "0 \<le> a" "a < 2 ^ 10" and rb: "0 \<le> b" "b < 2" and rc: "0 \<le> c" "c < 2 ^ 8"
    by (simp_all add: a_def b_def c_def)
  have 1: "push_bit 11 b OR push_bit 1 a = 2 ^ 11 * b + 2 * a"
    using ra by (subst or_push_add) (simp_all add: push_bit_eq_mult)
  have 2: "push_bit 12 c OR (2 ^ 11 * b + 2 * a) = 2 ^ 12 * c + 2 ^ 11 * b + 2 * a"
    using ra rb by (subst or_push_add) (simp_all add: push_bit_eq_mult)
  have 3: "push_bit 20 d OR (2 ^ 12 * c + 2 ^ 11 * b + 2 * a) = 2 ^ 20 * d + 2 ^ 12 * c + 2 ^ 11 * b + 2 * a"
    using ra rb rc by (subst or_push_add) (simp_all add: push_bit_eq_mult)
  show ?thesis by (simp only: 1 2 3)
qed

lemma jal_target_arith:
  fixes w p :: int
  defines "imm20 \<equiv> drop_bit 31 w AND 0x1"
  defines "off \<equiv> push_bit 20 imm20 OR push_bit 12 (drop_bit 12 w AND 0xFF)
                   OR push_bit 11 (drop_bit 20 w AND 0x1) OR push_bit 1 (drop_bit 21 w AND 0x3FF)"
  shows "(p + (if imm20 \<noteq> 0 then off OR 0xFFE00000 else off)) AND 0xFFFFFFFF
         = (p + j_immediate w) mod 2 ^ 32"
proof -
  define a where "a = (w div 2 ^ 21) mod 2 ^ 10"
  define b where "b = (w div 2 ^ 20) mod 2"
  define c where "c = (w div 2 ^ 12) mod 2 ^ 8"
  define d where "d = (w div 2 ^ 31) mod 2"
  have ra: "0 \<le> a" "a < 2 ^ 10" and rb: "0 \<le> b" "b < 2" and rc: "0 \<le> c" "c < 2 ^ 8"
    and rd: "0 \<le> d" "d < 2"
    by (simp_all add: a_def b_def c_def d_def)
  have i20: "imm20 = d"
    by (simp add: imm20_def d_def and_numeral_mask drop_bit_eq_div)
  have off: "off = 2 ^ 20 * d + 2 ^ 12 * c + 2 ^ 11 * b + 2 * a"
    unfolding off_def i20 using jal_offset_sum [of w]
    by (simp add: a_def b_def c_def d_def and_numeral_mask drop_bit_eq_div)
  have j: "j_immediate w = 2 ^ 12 * c + 2 ^ 11 * b + 2 * a - 2 ^ 20 * d"
    by (simp add: j_immediate_def a_def b_def c_def d_def)
  show ?thesis
  proof (cases "d = 0")
    case True
    then show ?thesis by (simp add: i20 off j and_numeral_mask)
  next
    case False
    then have d1: "d = 1" using rd by simp
    have lo: "0 \<le> off" "off < 2 ^ 21" using ra rb rc by (simp_all add: off d1)
    have "off OR 0xFFE00000 = push_bit 21 0x7FF OR off"
      by (simp add: or.commute push_bit_eq_mult)
    also have "\<dots> = push_bit 21 0x7FF + off"
      using lo by (rule or_push_add)
    finally have "off OR 0xFFE00000 = 2 ^ 32 + (2 ^ 12 * c + 2 ^ 11 * b + 2 * a - 2 ^ 20)"
      by (simp add: off d1 push_bit_eq_mult)
    then have "p + (off OR 0xFFE00000) = (p + j_immediate w) + 2 ^ 32 * 1"
      by (simp add: j d1)
    then have "(p + (off OR 0xFFE00000)) mod 2 ^ 32 = (p + j_immediate w) mod 2 ^ 32"
      by (simp only: mod_mult_self2)
    then show ?thesis using False by (simp add: i20 and_numeral_mask)
  qed
qed

lemma word_facts_jal:
  assumes "w AND 0x7F = 0x6F"
  shows "word_facts i p w = [(p, True, (p + j_immediate w) mod 2 ^ 32)]"
  unfolding word_facts_def Let_def jal_target_arith
  using assms by simp

lemma length_derive:
  "length (generate_from_assembly ws) = length (filter (\<lambda>w. w AND 0x7F = 0x63 \<or> w AND 0x7F = 0x6F) ws)"
proof -
  have "length (derive_loop i p bs ws) = length bs + length (filter (\<lambda>w. w AND 0x7F = 0x63 \<or> w AND 0x7F = 0x6F) ws)"
    for i p bs
    by (induction ws arbitrary: i p bs) (simp_all add: Let_def)
  then show ?thesis by (simp add: generate_from_assembly_def)
qed

text \<open>
  Claim C4, as stated (the JAL target is \<open>pc + sign_extend(w & 0xFFFFF000)\<close>), fails:
  for the single word 0x0010006F at address 0 the deriver records target 0x800, where
  the claimed formula gives 0x100000.
\<close>

theorem jal_not_simplified_placement:
  "generate_from_assembly [0x0010006F] = [(0, True, 0x800)]
   \<and> spec_jal_target 0 0x0010006F = 0x100000"
  by code_simp

text \<open>
  Claim C4, amended: for every word whose low 7 bits equal 0x6F, at index \<open>i\<close> of the
  word sequence (address \<open>4 * i\<close>), the deriver records exactly one fact at that
  address; it has taken = true and target = (address + J) mod 2^32, where J is the
  scattered J-type immediate of the word (imm[20] = bit 31, imm[19:12] = bits 19:12,
  imm[11] = bit 20, imm[10:1] = bits 30:21), sign-extended from imm[20].
\<close>

theorem jal_fact_canonical_immediate:
  assumes "i < length ws" and "ws ! i AND 0x7F = 0x6F"
  shows "facts_at (4 * int i) (generate_from_assembly ws)
         = [(4 * int i, True, (4 * int i + j_immediate (ws ! i)) mod 2 ^ 32)]"
  using assms by (simp add: facts_at_index word_facts_jal)

text \<open>
  Claim C4, amended, at the words \<open>[0x13, 0xFFDFF06F]\<close>: the second word has
  J-immediate -4 and sits at address 4, so its fact is \<open>(4, True, 0)\<close>.
\<close>

theorem jal_fact_witness:
  "(1::nat) < length [0x13, 0xFFDFF06F :: int] \<and> [0x13, 0xFFDFF06F :: int] ! 1 AND 0x7F = 0x6F
   \<and> facts_at 4 (generate_from_assembly [0x13, 0xFFDFF06F]) = [(4, True, 0)]"
  using jal_fact_canonical_immediate [of 1 "[0x13, 0xFFDFF06F]"]
  by (simp add: j_immediate_def)

text \<open>
  Claim C8: in the static derivation, a word whose low 7 bits equal 0x63, at index
  \<open>i\<close> of the word sequence (counting all words), gets exactly one fact at its address
  \<open>4 * i\<close>, and its taken flag is true exactly when \<open>i\<close> is even; a word whose opcode
  is neither 0x63 nor 0x6F gets no fact; so the facts are as many as the words with one
  of the two opcodes.
\<close>

theorem branch_taken_iff_even_index:
  assumes "i < length ws"
  shows "(ws ! i AND 0x7F = 0x63 \<longrightarrow>
            (\<exists>t. facts_at (4 * int i) (generate_from_assembly ws) = [(4 * int i, even i, t)]))
       \<and> (ws ! i AND 0x7F \<noteq> 0x63 \<and> ws ! i AND 0x7F \<noteq> 0x6F \<longrightarrow>
            facts_at (4 * int i) (generate_from_assembly ws) = [])
       \<and> length (generate_from_assembly ws)
           = length (filter (\<lambda>w. w AND 0x7F = 0x63 \<or> w AND 0x7F = 0x6F) ws)"
  using assms by (simp add: facts_at_index length_derive) (simp add: word_facts_def Let_def even_iff_mod_2_eq_zero)

text \<open>
  Claim C8 at the words \<open>[0x63, 0x63, 0x13]\<close>: the branch at index 0 is recorded as
  taken, the branch at index 1 as not taken, the \<open>addi\<close> at index 2 leaves no fact, and
  there are two facts.
\<close>

theorem branch_taken_witness:
  "(\<exists>t. facts_at 0 (generate_from_assembly [0x63, 0x63, 0x13]) = [(0, True, t)])
   \<and> (\<exists>t. facts_at 4 (generate_from_assembly [0x63, 0x63, 0x13]) = [(4, False, t)])
   \<and> facts_at 8 (generate_from_assembly [0x63, 0x63, 0x13]) = []
   \<and> length (generate_from_assembly [0x63, 0x63, 0x13]) = 2"
  using branch_taken_iff_even_index [of 0 "[0x63, 0x63, 0x13]"]
    branch_taken_iff_even_index [of 1 "[0x63, 0x63, 0x13]"]
    branch_taken_iff_even_index [of 2 "[0x63, 0x63, 0x13]"]
  by simp

section \<open>The branch table\<close>










section \<open>Registers in the encoded word\<close>

lemma is_digit_facts:
  assumes "is_digit c"
  shows "\<not> is_space c" "lower_char c = c" "c \<noteq> CHR ''_''" "c \<noteq> CHR ''-''" "c \<noteq> CHR ''+''"
    "digit_val c = Some (nat (of_char c - 48))" "nat (of_char c - 48 :: int) < 10" "(48::int) \<le> of_char c"
    "\<not> is_int_space c"
  using assms
  by (auto simp: is_digit_def is_space_def is_int_space_def lower_char_def digit_val_def)

lemma digits_acc_decimal:
  assumes "\<forall>c\<in>set ds. is_digit c"
  shows "digits_acc 10 us acc ds
         = (if ds = [] \<and> us then None else Some (foldl (\<lambda>a c. 10 * a + (of_char c - 48)) acc ds))"
  using assms
proof (induction ds arbitrary: us acc)
  case Nil
  then show ?case by simp
next
  case (Cons c ds)
  then have c: "is_digit c" and ds: "\<forall>c\<in>set ds. is_digit c" by simp_all
  show ?case
    using is_digit_facts [OF c] Cons.IH [OF ds, of False]
    by (simp add: mult.commute)
qed

lemma strip_id:
  assumes "s \<noteq> []" "\<not> is_space (hd s)" "\<not> is_space (last s)"
  shows "strip s = s"
proof -
  have "dropWhile is_space s = s"
    using assms by (cases s) simp_all
  moreover have "dropWhile is_space (rev s) = rev s"
    using assms by (cases "rev s") (simp_all add: last_rev [symmetric] hd_rev)
  ultimately show ?thesis
    by (simp add: strip_def lstrip_def rstrip_def)
qed

lemma int_strip_id:
  assumes "s \<noteq> []" "\<not> is_int_space (hd s)" "\<not> is_int_space (last s)"
  shows "int_strip s = s"
proof -
  have "dropWhile is_int_space s = s"
    using assms by (cases s) simp_all
  moreover have "dropWhile is_int_space (rev s) = rev s"
    using assms by (cases "rev s") (simp_all add: last_rev [symmetric] hd_rev)
  ultimately show ?thesis
    by (simp add: int_strip_def)
qed

lemma int10_decimal:
  assumes "ds \<noteq> []" "\<forall>c\<in>set ds. is_digit c" "length ds \<le> 4300"
  shows "int10 ds = Inr (decimal ds)"
proof -
  obtain c cs where ds: "ds = c # cs" using assms(1) by (cases ds) auto
  have c: "is_digit c" using assms(2) ds by simp
  have "is_digit (last ds)" using assms by simp
  then have st: "int_strip ds = ds"
    using assms(1) c is_digit_facts(9) by (intro int_strip_id) (simp_all add: ds)
  have "filter (\<lambda>d. d \<noteq> CHR ''_'') ds = ds"
    using assms(2) by (simp add: filter_id_conv is_digit_facts(3))
  then have lim: "\<not> max_str_digits < length (filter (\<lambda>d. d \<noteq> CHR ''_'') ds)"
    using assms(3) by (simp add: max_str_digits_def)
  have da: "digits_acc 10 False 0 ds = Some (decimal ds)"
    using digits_acc_decimal [OF assms(2), of False 0] assms(1) by (simp add: decimal_def)
  have "parse_digits 10 (c # cs) = digits_acc 10 False 0 (c # cs)"
    using is_digit_facts(3) [OF c] lim
    by (simp add: parse_digits_def ds del: digits_acc.simps)
  then have "parse_digits 10 ds = Some (decimal ds)"
    using da by (simp add: ds del: digits_acc.simps)
  then show ?thesis
    using is_digit_facts [OF c] st
    by (simp add: int10_def py_int_def ds parse_unsigned_def del: digits_acc.simps)
qed

lemma parse_register_numeric:
  assumes "ds \<noteq> []" "\<forall>c\<in>set ds. is_digit c" "length ds \<le> 4300"
  shows "parse_register (CHR ''x'' # ds) = Inr (decimal ds)"
proof -
  have "map lower_char ds = ds"
    using assms(2) by (intro map_idI) (simp add: is_digit_facts(2))
  then have l: "lower (CHR ''x'' # ds) = CHR ''x'' # ds"
    by (simp add: lower_def lower_char_def)
  have "is_digit (last ds)" using assms by simp
  then have "\<not> is_space (last (CHR ''x'' # ds))"
    using assms(1) by (simp add: is_digit_facts(1))
  then have "strip (CHR ''x'' # ds) = CHR ''x'' # ds"
    by (intro strip_id) (simp_all add: is_space_def)
  then show ?thesis
    using int10_decimal [OF assms]
    by (simp add: parse_register_def l startswith_def)
qed

lemma div_mod_field:
  fixes lo hi m :: int
  assumes "0 \<le> lo" "lo < m"
  shows "(lo + m * hi) div m = hi" "(lo + m * hi) mod m = lo"
  using assms by (simp_all add: div_pos_pos_trivial)

lemma or_add_push:
  fixes lo hi :: int
  assumes "0 \<le> lo" "lo < 2 ^ n"
  shows "lo OR push_bit n hi = lo + 2 ^ n * hi"
  using or_push_add [OF assms, of hi] by (simp add: or.commute push_bit_eq_mult)

lemma rtype_word_sum:
  fixes rd f3 rs1 rs2 f7 :: int
  assumes "0 \<le> rd" "rd < 32" "0 \<le> f3" "f3 < 8" "0 \<le> rs1" "rs1 < 32" "0 \<le> rs2" "rs2 < 32"
  shows "0x33 OR push_bit 7 rd OR push_bit 12 f3 OR push_bit 15 rs1 OR push_bit 20 rs2 OR push_bit 25 f7
         = 0x33 + 2 ^ 7 * (rd + 2 ^ 5 * (f3 + 2 ^ 3 * (rs1 + 2 ^ 5 * (rs2 + 2 ^ 5 * f7))))"
proof -
  have 1: "(0x33::int) OR push_bit 7 rd = 0x33 + 2 ^ 7 * rd"
    by (rule or_add_push) simp_all
  have 2: "(0x33 + 2 ^ 7 * rd) OR push_bit 12 f3 = 0x33 + 2 ^ 7 * rd + 2 ^ 12 * f3"
    using assms by (intro or_add_push) simp_all
  have 3: "(0x33 + 2 ^ 7 * rd + 2 ^ 12 * f3) OR push_bit 15 rs1
           = 0x33 + 2 ^ 7 * rd + 2 ^ 12 * f3 + 2 ^ 15 * rs1"
    using assms by (intro or_add_push) simp_all
  have 4: "(0x33 + 2 ^ 7 * rd + 2 ^ 12 * f3 + 2 ^ 15 * rs1) OR push_bit 20 rs2
           = 0x33 + 2 ^ 7 * rd + 2 ^ 12 * f3 + 2 ^ 15 * rs1 + 2 ^ 20 * rs2"
    using assms by (intro or_add_push) simp_all
  have 5: "(0x33 + 2 ^ 7 * rd + 2 ^ 12 * f3 + 2 ^ 15 * rs1 + 2 ^ 20 * rs2) OR push_bit 25 f7
           = 0x33 + 2 ^ 7 * rd + 2 ^ 12 * f3 + 2 ^ 15 * rs1 + 2 ^ 20 * rs2 + 2 ^ 25 * f7"
    using assms by (intro or_add_push) simp_all
  have "0x33 OR push_bit 7 rd OR push_bit 12 f3 OR push_bit 15 rs1 OR push_bit 20 rs2 OR push_bit 25 f7
        = (((((0x33::int) OR push_bit 7 rd) OR push_bit 12 f3) OR push_bit 15 rs1) OR push_bit 20 rs2)
            OR push_bit 25 f7"
    by (simp only: or.assoc)
  also have "\<dots> = 0x33 + 2 ^ 7 * rd + 2 ^ 12 * f3 + 2 ^ 15 * rs1 + 2 ^ 20 * rs2 + 2 ^ 25 * f7"
    by (simp only: 1 2 3 4 5)
  finally show ?thesis by simp
qed

lemma rtype_fields:
  fixes rd f3 rs1 rs2 f7 :: int
  assumes "0 \<le> rd" "rd < 32" "0 \<le> f3" "f3 < 8" "0 \<le> rs1" "rs1 < 32" "0 \<le> rs2" "rs2 < 32"
  defines "w \<equiv> 0x33 OR push_bit 7 rd OR push_bit 12 f3 OR push_bit 15 rs1 OR push_bit 20 rs2 OR push_bit 25 f7"
  shows "w AND 0x7F = 0x33" "drop_bit 7 w AND 0x1F = rd" "drop_bit 12 w AND 0x7 = f3"
    "drop_bit 15 w AND 0x1F = rs1" "drop_bit 20 w AND 0x1F = rs2" "drop_bit 25 w = f7"
proof -
  define x4 where "x4 = rs2 + 2 ^ 5 * f7"
  define x3 where "x3 = rs1 + 2 ^ 5 * x4"
  define x2 where "x2 = f3 + 2 ^ 3 * x3"
  define x1 where "x1 = rd + 2 ^ 5 * x2"
  have w: "w = 0x33 + 2 ^ 7 * x1"
    unfolding w_def x1_def x2_def x3_def x4_def using assms(1-8) by (rule rtype_word_sum)
  have d7: "w div 2 ^ 7 = x1" and m7: "w mod 2 ^ 7 = 0x33"
    unfolding w by (rule div_mod_field; simp)+
  have d12: "w div 2 ^ 12 = x2"
  proof -
    have "w div 2 ^ 12 = (w div 2 ^ 7) div 2 ^ 5"
      by (simp add: div_mult2_eq [symmetric])
    also have "\<dots> = x2" unfolding d7 x1_def using assms(1-8) by (intro div_mod_field) simp_all
    finally show ?thesis .
  qed
  have d15: "w div 2 ^ 15 = x3"
  proof -
    have "w div 2 ^ 15 = (w div 2 ^ 12) div 2 ^ 3"
      by (simp add: div_mult2_eq [symmetric])
    also have "\<dots> = x3" unfolding d12 x2_def using assms(1-8) by (intro div_mod_field) simp_all
    finally show ?thesis .
  qed
  have d20: "w div 2 ^ 20 = x4"
  proof -
    have "w div 2 ^ 20 = (w div 2 ^ 15) div 2 ^ 5"
      by (simp add: div_mult2_eq [symmetric])
    also have "\<dots> = x4" unfolding d15 x3_def using assms(1-8) by (intro div_mod_field) simp_all
    finally show ?thesis .
  qed
  have d25: "w div 2 ^ 25 = f7"
  proof -
    have "w div 2 ^ 25 = (w div 2 ^ 20) div 2 ^ 5"
      by (simp add: div_mult2_eq [symmetric])
    also have "\<dots> = f7" unfolding d20 x4_def using assms(1-8) by (intro div_mod_field) simp_all
    finally show ?thesis .
  qed
  show "w AND 0x7F = 0x33"
    unfolding and_numeral_mask by (rule m7)
  show "drop_bit 7 w AND 0x1F = rd"
    unfolding and_numeral_mask drop_bit_eq_div d7 x1_def
    using assms(1-8) by (intro div_mod_field) simp_all
  show "drop_bit 12 w AND 0x7 = f3"
    unfolding and_numeral_mask drop_bit_eq_div d12 x2_def
    using assms(1-8) by (intro div_mod_field) simp_all
  show "drop_bit 15 w AND 0x1F = rs1"
    unfolding and_numeral_mask drop_bit_eq_div d15 x3_def
    using assms(1-8) by (intro div_mod_field) simp_all
  show "drop_bit 20 w AND 0x1F = rs2"
    unfolding and_numeral_mask drop_bit_eq_div d20 x4_def
    using assms(1-8) by (intro div_mod_field) simp_all
  show "drop_bit 25 w = f7"
    unfolding drop_bit_eq_div by (rule d25)
qed

lemma rtype_funct3_range: "rtype_funct3 opc = Some f3 \<Longrightarrow> 0 \<le> f3 \<and> f3 < 8"
  by (auto simp: rtype_funct3_def split: if_splits)

lemma bindE_Inr [simp]: "bindE (Inr x) f = f x"
  by (simp add: bindE_def)

lemma bindE_Inl [simp]: "bindE (Inl e) f = Inl e"
  by (simp add: bindE_def)

lemma idx_Cons_0 [simp]: "idx (x # xs) 0 = Inr x"
  by (simp add: idx_def)

lemma idx_Cons_Suc [simp]: "idx (x # xs) (Suc n) = idx xs n"
  by (simp add: idx_def)

lemma rtype_word_bits:
  fixes rd f3 rs1 rs2 f7 :: int
  defines "w \<equiv> 0x33 OR push_bit 7 rd OR push_bit 12 f3 OR push_bit 15 rs1 OR push_bit 20 rs2 OR push_bit 25 f7"
  shows "w AND 0x7F = 0x33"
    and "drop_bit 7 w AND 0x1F = rd AND 0x1F"
    and "drop_bit 12 w = drop_bit 5 rd OR f3 OR push_bit 3 rs1 OR push_bit 8 rs2 OR push_bit 13 f7"
proof -
  have m7: "(0x7F::int) = mask 7" and m5: "(0x1F::int) = mask 5"
    by (simp_all add: mask_eq_exp_minus_1)
  show "w AND 0x7F = 0x33"
    unfolding w_def m7 by (simp add: take_bit_push_bit flip: take_bit_eq_mask)
  show "drop_bit 7 w AND 0x1F = rd AND 0x1F"
    unfolding w_def m5
    by (simp add: drop_bit_push_bit take_bit_push_bit flip: take_bit_eq_mask)
  show "drop_bit 12 w = drop_bit 5 rd OR f3 OR push_bit 3 rs1 OR push_bit 8 rs2 OR push_bit 13 f7"
    unfolding w_def by (simp add: drop_bit_push_bit)
qed

text \<open>
  Claim C5, as stated (an out-of-range \<open>xN\<close> is truncated to 5 bits by later masking
  and touches only the register field; unknown names resolve to register 0), fails:
  \<open>x32\<close> resolves to 32, and \<open>add x32, x0, x0\<close> assembles to 0x1033, whose rd field
  is 0 and whose funct3 field is 1 although the funct3 of \<open>add\<close> is 0; and the unknown
  name \<open>xyz\<close> does not resolve to 0 but raises ValueError, which ends the run.
\<close>

theorem register_x32_reaches_funct3:
  "parse_register ''x32'' = Inr 32
   \<and> fst (assemble init ''add x32, x0, x0'') = Inr [0x1033]
   \<and> drop_bit 7 (0x1033 :: int) AND 0x1F = 0
   \<and> drop_bit 12 (0x1033 :: int) AND 0x7 = 1
   \<and> rtype_funct3 ''add'' = Some 0
   \<and> parse_register ''xyz'' = Inl ValueError
   \<and> fst (assemble init ''add xyz, x0, x0'') = Inl ValueError"
  by code_simp

text \<open>
  Claim C5, amended: the register resolver returns the number N of a numeric token
  \<open>xN\<close> (decimal digits, at most 4300 of them) as it is, with no bound and no
  truncation. The R-type encoder masks nothing: its word has opcode 0x33, its rd field
  holds the low five bits of the resolved rd, and the bits of rd above the fifth are
  OR-ed onto funct3 and the fields above it (bits 12 and up of the word are
  \<open>rd >> 5 | funct3 | rs1 << 3 | rs2 << 8 | funct7 << 13\<close>). When the three register
  indices are in 0..31, each sits in its own 5-bit field and funct3 and funct7 are
  undisturbed. A name that does not start with \<open>x\<close> and is not in the alias table
  resolves to register 0.
\<close>

theorem register_index_passed_through:
  "(ds \<noteq> [] \<and> (\<forall>c\<in>set ds. is_digit c) \<and> length ds \<le> 4300
      \<longrightarrow> parse_register (CHR ''x'' # ds) = Inr (decimal ds))
   \<and> (parse_register ta = Inr rd \<and> parse_register tb = Inr rs1 \<and> parse_register tc = Inr rs2
       \<and> rtype_funct3 opc = Some f3 \<and> rtype_funct7 opc = Some f7
      \<longrightarrow> (\<exists>w. encode_rtype opc (ta # tb # tc # rest) = Inr w
             \<and> w AND 0x7F = 0x33
             \<and> drop_bit 7 w AND 0x1F = rd AND 0x1F
             \<and> drop_bit 12 w = drop_bit 5 rd OR f3 OR push_bit 3 rs1 OR push_bit 8 rs2 OR push_bit 13 f7
             \<and> (0 \<le> rd \<and> rd < 32 \<and> 0 \<le> rs1 \<and> rs1 < 32 \<and> 0 \<le> rs2 \<and> rs2 < 32
                \<longrightarrow> drop_bit 7 w AND 0x1F = rd \<and> drop_bit 12 w AND 0x7 = f3
                    \<and> drop_bit 15 w AND 0x1F = rs1 \<and> drop_bit 20 w AND 0x1F = rs2
                    \<and> drop_bit 25 w = f7)))
   \<and> (\<not> startswith (strip (lower reg)) ''x'' \<and> reg_map (strip (lower reg)) = None
      \<longrightarrow> parse_register reg = Inr 0)"
proof (intro conjI impI)
  assume "ds \<noteq> [] \<and> (\<forall>c\<in>set ds. is_digit c) \<and> length ds \<le> 4300"
  then show "parse_register (CHR ''x'' # ds) = Inr (decimal ds)"
    by (simp add: parse_register_numeric)
next
  assume h: "parse_register ta = Inr rd \<and> parse_register tb = Inr rs1 \<and> parse_register tc = Inr rs2
       \<and> rtype_funct3 opc = Some f3 \<and> rtype_funct7 opc = Some f7"
  let ?w = "0x33 OR push_bit 7 rd OR push_bit 12 f3 OR push_bit 15 rs1 OR push_bit 20 rs2 OR push_bit 25 f7"
  have e: "encode_rtype opc (ta # tb # tc # rest) = Inr ?w"
    using h by (simp add: encode_rtype_def numeral_2_eq_2)
  have f3: "0 \<le> f3" "f3 < 8" using h rtype_funct3_range by blast+
  note gen = rtype_word_bits [of rd f3 rs1 rs2 f7]
  have inr: "drop_bit 7 ?w AND 0x1F = rd \<and> drop_bit 12 ?w AND 0x7 = f3
        \<and> drop_bit 15 ?w AND 0x1F = rs1 \<and> drop_bit 20 ?w AND 0x1F = rs2 \<and> drop_bit 25 ?w = f7"
    if r: "0 \<le> rd \<and> rd < 32 \<and> 0 \<le> rs1 \<and> rs1 < 32 \<and> 0 \<le> rs2 \<and> rs2 < 32"
  proof -
    have r': "0 \<le> rd" "rd < 32" "0 \<le> rs1" "rs1 < 32" "0 \<le> rs2" "rs2 < 32" using r by simp_all
    from rtype_fields [OF r'(1,2) f3 r'(3-6), of f7] show ?thesis by blast
  qed
  show "\<exists>w. encode_rtype opc (ta # tb # tc # rest) = Inr w
             \<and> w AND 0x7F = 0x33
             \<and> drop_bit 7 w AND 0x1F = rd AND 0x1F
             \<and> drop_bit 12 w = drop_bit 5 rd OR f3 OR push_bit 3 rs1 OR push_bit 8 rs2 OR push_bit 13 f7
             \<and> (0 \<le> rd \<and> rd < 32 \<and> 0 \<le> rs1 \<and> rs1 < 32 \<and> 0 \<le> rs2 \<and> rs2 < 32
                \<longrightarrow> drop_bit 7 w AND 0x1F = rd \<and> drop_bit 12 w AND 0x7 = f3
                    \<and> drop_bit 15 w AND 0x1F = rs1 \<and> drop_bit 20 w AND 0x1F = rs2
                    \<and> drop_bit 25 w = f7)"
    using e gen inr by blast
next
  assume "\<not> startswith (strip (lower reg)) ''x'' \<and> reg_map (strip (lower reg)) = None"
  then show "parse_register reg = Inr 0"
    by (simp add: parse_register_def)
qed

text \<open>
  Claim C5, amended, at \<open>x32\<close>, at \<open>sub x31, t0, a0\<close>, at \<open>add x100, x0, x0\<close>
  (rd field 4, bits 12 and up equal to 3) and at the unknown name \<open>q7\<close>.
\<close>

theorem register_index_witness:
  "parse_register ''x32'' = Inr 32
   \<and> (\<exists>w. encode_rtype ''sub'' [''x31'', ''t0'', ''a0''] = Inr w
        \<and> w AND 0x7F = 0x33 \<and> drop_bit 7 w AND 0x1F = 31 \<and> drop_bit 12 w AND 0x7 = 0
        \<and> drop_bit 15 w AND 0x1F = 5 \<and> drop_bit 20 w AND 0x1F = 10 \<and> drop_bit 25 w = 0x20)
   \<and> (\<exists>w. encode_rtype ''add'' [''x100'', ''x0'', ''x0''] = Inr w
        \<and> drop_bit 7 w AND 0x1F = 4 \<and> drop_bit 12 w = 3)
   \<and> parse_register ''q7'' = Inr 0"
proof -
  have 1: "''32'' \<noteq> [] \<and> (\<forall>c\<in>set ''32''. is_digit c) \<and> length ''32'' \<le> 4300"
    and d: "decimal ''32'' = 32"
    by code_simp+
  have 2: "parse_register ''x31'' = Inr 31 \<and> parse_register ''t0'' = Inr 5 \<and> parse_register ''a0'' = Inr 10
       \<and> rtype_funct3 ''sub'' = Some 0 \<and> rtype_funct7 ''sub'' = Some 0x20"
    by code_simp
  have 3: "\<not> startswith (strip (lower ''q7'')) ''x'' \<and> reg_map (strip (lower ''q7'')) = None"
    by code_simp
  have 4: "parse_register ''x100'' = Inr 100 \<and> parse_register ''x0'' = Inr 0 \<and> parse_register ''x0'' = Inr 0
       \<and> rtype_funct3 ''add'' = Some 0 \<and> rtype_funct7 ''add'' = Some 0"
    by code_simp
  have 5: "(100::int) AND 0x1F = 4" "drop_bit 5 (100::int) OR 0 OR push_bit 3 0 OR push_bit 8 0 OR push_bit 13 0 = 3"
    by simp_all
  from register_index_passed_through [of "''32''" "''x31''" 31 "''t0''" 5 "''a0''" 10 "''sub''" 0 "0x20" "[]" "''q7''"]
    1 2 3 d
  have a: "parse_register ''x32'' = Inr 32
   \<and> (\<exists>w. encode_rtype ''sub'' [''x31'', ''t0'', ''a0''] = Inr w
        \<and> w AND 0x7F = 0x33 \<and> drop_bit 7 w AND 0x1F = 31 \<and> drop_bit 12 w AND 0x7 = 0
        \<and> drop_bit 15 w AND 0x1F = 5 \<and> drop_bit 20 w AND 0x1F = 10 \<and> drop_bit 25 w = 0x20)
   \<and> parse_register ''q7'' = Inr 0"
    by simp blast
  from register_index_passed_through [of "''32''" "''x100''" 100 "''x0''" 0 "''x0''" 0 "''add''" 0 0 "[]" "''q7''"]
    4 5
  have b: "\<exists>w. encode_rtype ''add'' [''x100'', ''x0'', ''x0''] = Inr w
        \<and> drop_bit 7 w AND 0x1F = 4 \<and> drop_bit 12 w = 3"
    by auto
  from a b show ?thesis by blast
qed


section \<open>The symbol table across runs\<close>

lemma first_pass_map_add:
  "first_pass L p ls = L ++ first_pass Map.empty p ls"
proof (induction ls arbitrary: L p)
  case Nil
  show ?case by simp
next
  case (Cons l ls)
  show ?case
  proof (cases "blank_or_comment (strip l)")
    case True
    then show ?thesis using Cons.IH [of L p] by simp
  next
    case False
    show ?thesis
    proof (cases "CHR '':'' \<in> set (strip l)")
      case True
      let ?k = "label_of (strip l)"
      have "first_pass (L(?k \<mapsto> p)) p ls = L(?k \<mapsto> p) ++ first_pass Map.empty p ls"
        by (rule Cons.IH)
      moreover have "first_pass (Map.empty(?k \<mapsto> p)) p ls = Map.empty(?k \<mapsto> p) ++ first_pass Map.empty p ls"
        by (rule Cons.IH)
      moreover have "L(?k \<mapsto> p) = L ++ Map.empty(?k \<mapsto> p)"
        by simp
      ultimately show ?thesis
        using False True by (simp add: Let_def map_add_assoc del: map_add_upd)
    next
      case c: False
      then show ?thesis using False Cons.IH [of L "p + 4"] by simp
    qed
  qed
qed

lemma map_add_covered:
  assumes "dom L \<subseteq> dom M"
  shows "L ++ M = M"
proof
  fix x
  show "(L ++ M) x = M x"
    using assms by (cases "M x") (auto simp: map_add_def dom_def)
qed

lemmas eval_text =
  assemble_def init_def split_on_def strip_def lstrip_def rstrip_def is_space_def
  blank_or_comment_def startswith_def label_of_def Let_def

text \<open>
  Claim C7, as stated (a used instance assembles any text as a fresh instance does),
  fails: after assembling \<open>foo:\<close>, the same instance assembles \<open>beq x0, x0, foo\<close> to
  the word 0x63, while a fresh instance raises ValueError on it.
\<close>

theorem stale_label_resolves_branch:
  "fst (assemble (snd (assemble init ''foo:'')) ''beq x0, x0, foo'') = Inr [0x63]
   \<and> fst (assemble init ''beq x0, x0, foo'') = Inl ValueError"
  by code_simp

text \<open>
  Claim C7, amended: the symbol table belongs to the instance and \<open>assemble\<close> never
  clears it. After a run on \<open>s1\<close>, a run on \<open>s2\<close> works with the labels left by
  \<open>s1\<close> overridden by those \<open>s2\<close> defines; it returns what a fresh instance returns
  whenever every label defined while assembling \<open>s1\<close> is defined again by \<open>s2\<close>.
\<close>

theorem labels_survive_between_runs:
  "labels (snd (assemble (snd (assemble init s1)) s2))
     = labels (snd (assemble init s1)) ++ labels (snd (assemble init s2))
   \<and> (dom (labels (snd (assemble init s1))) \<subseteq> dom (labels (snd (assemble init s2)))
      \<longrightarrow> fst (assemble (snd (assemble init s1)) s2) = fst (assemble init s2))"
proof -
  let ?L = "labels (snd (assemble init s1))"
  let ?ls = "split_on CHR ''\<newline>'' (strip s2)"
  have fresh: "labels (snd (assemble init s2)) = first_pass Map.empty 0 ?ls"
    by (simp add: assemble_def init_def Let_def)
  have used: "labels (snd (assemble (snd (assemble init s1)) s2)) = ?L ++ first_pass Map.empty 0 ?ls"
    using first_pass_map_add [of ?L 0 ?ls] by (simp add: assemble_def Let_def)
  have "fst (assemble (snd (assemble init s1)) s2) = fst (assemble init s2)"
    if "dom ?L \<subseteq> dom (labels (snd (assemble init s2)))"
  proof -
    have "?L ++ first_pass Map.empty 0 ?ls = first_pass Map.empty 0 ?ls"
      using that unfolding fresh by (rule map_add_covered)
    then have "first_pass ?L 0 ?ls = first_pass Map.empty 0 ?ls"
      using first_pass_map_add [of ?L 0 ?ls] by simp
    then show ?thesis
      by (simp add: assemble_def init_def Let_def)
  qed
  with fresh used show ?thesis by simp
qed

text \<open>
  Claim C7, amended, at \<open>s1 = end:\<close> and \<open>s2 = end:\<close>, \<open>jal x0, end\<close>: the one
  label of \<open>s1\<close> is redefined by \<open>s2\<close>, and the used instance returns the fresh
  instance's word.
\<close>

theorem labels_survive_witness:
  "dom (labels (snd (assemble init ''end:''))) \<subseteq> dom (labels (snd (assemble init ''end:\<newline>jal x0, end'')))
   \<and> fst (assemble (snd (assemble init ''end:'')) ''end:\<newline>jal x0, end'') = Inr [0x6F]"
proof -
  have 1: "labels (snd (assemble init ''end:'')) = [''end'' \<mapsto> 0]"
    by (simp add: eval_text)
  have 2: "labels (snd (assemble init ''end:\<newline>jal x0, end'')) = [''end'' \<mapsto> 0]"
    by (simp add: eval_text)
  have 3: "fst (assemble init ''end:\<newline>jal x0, end'') = Inr [0x6F]"
    by code_simp
  from labels_survive_between_runs [of "''end:''" "''end:\<newline>jal x0, end''"] 1 2 3
  show ?thesis by simp
qed

section \<open>Targets that resolve to nothing\<close>

lemma length_ge_3E:
  assumes "2 < length xs"
  obtains a b c rest where "xs = a # b # c # rest"
proof -
  obtain a xs1 where 1: "xs = a # xs1" using assms by (cases xs) auto
  obtain b xs2 where 2: "xs1 = b # xs2" using assms 1 by (cases xs1) auto
  obtain c xs3 where 3: "xs2 = c # xs3" using assms 1 2 by (cases xs2) auto
  from that 1 2 3 show ?thesis by blast
qed

lemma length_ge_2E:
  assumes "1 < length xs"
  obtains a b rest where "xs = a # b # rest"
proof -
  obtain a xs1 where 1: "xs = a # xs1" using assms by (cases xs) auto
  obtain b xs2 where 2: "xs1 = b # xs2" using assms 1 by (cases xs1) auto
  from that 1 2 show ?thesis by blast
qed

lemma resolve_offset_unknown:
  "lbls target = None \<Longrightarrow> py_int 0 target = None \<Longrightarrow> resolve_offset lbls target p = Inl ValueError"
  by (simp add: resolve_offset_def int0_def)

lemma encode_branch_unresolved:
  assumes "2 < length operands" "lbls (operands ! 2) = None" "py_int 0 (operands ! 2) = None"
  shows "isl (encode_branch lbls opcode operands p)"
proof -
  from assms(1) obtain a b t rest where ops: "operands = a # b # t # rest"
    by (rule length_ge_3E)
  have "resolve_offset lbls t p = Inl ValueError"
    using assms(2,3) by (simp add: ops resolve_offset_unknown)
  then show ?thesis
    by (cases "parse_register a"; cases "parse_register b")
       (simp_all add: encode_branch_def ops numeral_2_eq_2)
qed

lemma encode_jal_unresolved:
  assumes "1 < length operands" "lbls (operands ! 1) = None" "py_int 0 (operands ! 1) = None"
  shows "isl (encode_jump lbls ''jal'' operands p)"
proof -
  from assms(1) obtain a t rest where ops: "operands = a # t # rest"
    by (rule length_ge_2E)
  have "resolve_offset lbls t p = Inl ValueError"
    using assms(2,3) by (simp add: ops resolve_offset_unknown)
  then show ?thesis
    by (cases "parse_register a") (simp_all add: encode_jump_def ops)
qed

lemma encode_line_unresolved:
  assumes "split (replace_comma line) = m # operands"
    and "(lower m \<in> set [''beq'', ''bne'', ''blt'', ''bge''] \<and> 2 < length operands \<and> target = operands ! 2)
         \<or> (lower m = ''jal'' \<and> 1 < length operands \<and> target = operands ! 1)"
    and "lbls target = None" and "py_int 0 target = None"
  shows "isl (encode_line lbls line p)"
proof -
  from assms(2) show ?thesis
  proof
    assume b: "lower m \<in> set [''beq'', ''bne'', ''blt'', ''bge''] \<and> 2 < length operands \<and> target = operands ! 2"
    then have "isl (encode_branch lbls (lower m) operands p)"
      using assms(3,4) by (intro encode_branch_unresolved) simp_all
    then show ?thesis
      using b by (simp add: encode_line_def assms(1) Let_def)
  next
    assume j: "lower m = ''jal'' \<and> 1 < length operands \<and> target = operands ! 1"
    then have "isl (encode_jump lbls ''jal'' operands p)"
      using assms(3,4) by (intro encode_jal_unresolved) simp_all
    then show ?thesis
      using j by (simp add: encode_line_def assms(1) Let_def)
  qed
qed

lemma second_pass_stops:
  assumes "\<not> blank_or_comment (strip l)" "CHR '':'' \<notin> set (strip l)"
    and "\<And>p. isl (encode_line lbls (strip l) p)"
  shows "isl (second_pass lbls p mc (before @ l # after))"
proof (induction before arbitrary: p mc)
  case Nil
  show ?case
    using assms(1,2) assms(3) [of p]
    by (cases "encode_line lbls (strip l) p") (simp_all add: Let_def)
next
  case (Cons b before)
  show ?case
    by (cases "encode_line lbls (strip b) p") (simp_all add: Cons.IH Let_def)
qed

text \<open>
  Claim C10, as stated (a target that is neither a label nor a decimal or 0x-prefixed
  literal makes \<open>assemble\<close> raise), fails: \<open>0b100\<close> is no label, no decimal literal
  and has no 0x prefix, yet \<open>beq x0, x0, 0b100\<close> assembles to one word, with offset 4.
\<close>

theorem binary_literal_target_assembles:
  "labels (snd (assemble init ''beq x0, x0, 0b100'')) ''0b100'' = None
   \<and> py_int 10 ''0b100'' = None
   \<and> \<not> startswith (lower ''0b100'') ''0x''
   \<and> fst (assemble init ''beq x0, x0, 0b100'') = Inr [0x00000263]"
  by code_simp

text \<open>
  Claim C10, amended: let a text have an instruction line (not blank, not starting with
  \<open>#\<close>, without \<open>:\<close>) whose first token is \<open>beq\<close>, \<open>bne\<close>, \<open>blt\<close> or
  \<open>bge\<close> in any case with a third operand as target, or \<open>jal\<close> with a second operand
  as target. If the target is not in the symbol table after the first pass and
  \<open>int(target, 0)\<close> rejects it (it is no decimal, 0x, 0o or 0b literal), then
  \<open>assemble\<close> raises and returns no word list.
\<close>

theorem unresolved_target_fails:
  assumes "split_on CHR ''\<newline>'' (strip src) = before @ l # after"
    and "\<not> blank_or_comment (strip l)" and "CHR '':'' \<notin> set (strip l)"
    and "split (replace_comma (strip l)) = m # operands"
    and "(lower m \<in> set [''beq'', ''bne'', ''blt'', ''bge''] \<and> 2 < length operands \<and> target = operands ! 2)
         \<or> (lower m = ''jal'' \<and> 1 < length operands \<and> target = operands ! 1)"
    and "labels (snd (assemble self src)) target = None"
    and "py_int 0 target = None"
  shows "\<exists>e. fst (assemble self src) = Inl e"
proof -
  let ?lbls = "first_pass (labels self) 0 (before @ l # after)"
  have lb: "?lbls target = None"
    using assms(6) by (simp add: assemble_def Let_def assms(1))
  have "isl (encode_line ?lbls (strip l) p)" for p
    using assms(4,5) lb assms(7) by (rule encode_line_unresolved)
  then have "isl (second_pass ?lbls 0 [] (before @ l # after))"
    using assms(2,3) by (intro second_pass_stops)
  then have "isl (fst (assemble self src))"
    by (simp add: assemble_def Let_def assms(1))
  then show ?thesis by (cases "fst (assemble self src)") simp_all
qed

text \<open>
  Claim C10, amended, at a three-line text whose second line branches to the
  undefined name \<open>nowhere\<close>.
\<close>

theorem unresolved_target_witness:
  "labels (snd (assemble init ''addi x1, x0, 1\<newline>bne x1, x0, nowhere\<newline>nop'')) ''nowhere'' = None
   \<and> py_int 0 ''nowhere'' = None
   \<and> (\<exists>e. fst (assemble init ''addi x1, x0, 1\<newline>bne x1, x0, nowhere\<newline>nop'') = Inl e)"
proof -
  let ?src = "''addi x1, x0, 1\<newline>bne x1, x0, nowhere\<newline>nop''"
  let ?l = "''bne x1, x0, nowhere''"
  have 1: "split_on CHR ''\<newline>'' (strip ?src) = [''addi x1, x0, 1''] @ ?l # [''nop'']"
    by code_simp
  have 2: "\<not> blank_or_comment (strip ?l)" and 3: "CHR '':'' \<notin> set (strip ?l)"
    by code_simp+
  have 4: "split (replace_comma (strip ?l)) = ''bne'' # [''x1'', ''x0'', ''nowhere'']"
    by code_simp
  have 5: "(lower ''bne'' \<in> set [''beq'', ''bne'', ''blt'', ''bge''] \<and> 2 < length [''x1'', ''x0'', ''nowhere'']
            \<and> ''nowhere'' = [''x1'', ''x0'', ''nowhere''] ! 2)
         \<or> (lower ''bne'' = ''jal'' \<and> 1 < length [''x1'', ''x0'', ''nowhere'']
            \<and> ''nowhere'' = [''x1'', ''x0'', ''nowhere''] ! 1)"
    by code_simp
  have 6: "labels (snd (assemble init ?src)) ''nowhere'' = None"
    by code_simp
  have 7: "py_int 0 ''nowhere'' = None"
    by code_simp
  from unresolved_target_fails [OF 1 2 3 4 5 6 7] 6 7 show ?thesis by blast
qed

section \<open>Comments, labels and the tokens of a line\<close>

lemma split_ws_spaces:
  "\<forall>c\<in>set ws. is_space c \<Longrightarrow> split_ws cur ws = (if cur = [] then [] else [cur])"
  by (induction ws arbitrary: cur) auto

lemma split_ws_leading:
  "\<forall>c\<in>set ws. is_space c \<Longrightarrow> split_ws [] (ws @ s) = split_ws [] s"
  by (induction ws) auto

lemma split_ws_trailing:
  "\<forall>c\<in>set ws. is_space c \<Longrightarrow> split_ws cur (s @ ws) = split_ws cur s"
  by (induction s arbitrary: cur) (auto simp: split_ws_spaces)

lemma split_ws_space_append:
  "is_space x \<Longrightarrow> split_ws cur (a @ x # b) = split_ws cur a @ split_ws [] b"
  by (induction a arbitrary: cur) auto

lemma strip_decompose:
  "\<exists>ws1 ws2. s = ws1 @ strip s @ ws2 \<and> (\<forall>c\<in>set ws1. is_space c) \<and> (\<forall>c\<in>set ws2. is_space c)"
proof -
  let ?l = "dropWhile is_space s"
  have 1: "s = takeWhile is_space s @ ?l" by simp
  have "rev ?l = takeWhile is_space (rev ?l) @ dropWhile is_space (rev ?l)" by simp
  then have "?l = rev (dropWhile is_space (rev ?l)) @ rev (takeWhile is_space (rev ?l))"
    by (metis rev_append rev_rev_ident)
  then have 2: "?l = strip s @ rev (takeWhile is_space (rev ?l))"
    by (simp add: strip_def lstrip_def rstrip_def)
  have 3: "\<forall>c\<in>set (takeWhile is_space s). is_space c"
    by (auto dest: set_takeWhileD)
  have 4: "\<forall>c\<in>set (rev (takeWhile is_space (rev ?l))). is_space c"
    by (auto dest: set_takeWhileD)
  from 1 2 have "s = takeWhile is_space s @ strip s @ rev (takeWhile is_space (rev ?l))"
    by metis
  with 3 4 show ?thesis by blast
qed

lemma is_space_not_comma: "is_space c \<Longrightarrow> c \<noteq> CHR '',''"
  by (auto simp: is_space_def)

lemma replace_comma_spaces:
  "\<forall>c\<in>set ws. is_space c \<Longrightarrow> replace_comma ws = ws"
  by (auto simp: replace_comma_def is_space_not_comma intro: map_idI)

lemma tokens_strip:
  "split (replace_comma (strip s)) = split (replace_comma s)"
proof -
  obtain ws1 ws2 where s: "s = ws1 @ strip s @ ws2"
    and w1: "\<forall>c\<in>set ws1. is_space c" and w2: "\<forall>c\<in>set ws2. is_space c"
    using strip_decompose by blast
  have "replace_comma s = replace_comma ws1 @ replace_comma (strip s) @ replace_comma ws2"
    by (subst s) (simp add: replace_comma_def)
  then have "replace_comma s = ws1 @ replace_comma (strip s) @ ws2"
    using w1 w2 by (simp add: replace_comma_spaces)
  then show ?thesis
    using w1 w2 by (simp add: split_def split_ws_leading split_ws_trailing)
qed

lemma tokens_comment:
  "split (replace_comma (t @ '' #'' @ c))
   = split (replace_comma t) @ split (replace_comma (CHR ''#'' # c))"
proof -
  have "replace_comma (t @ '' #'' @ c) = replace_comma t @ CHR '' '' # replace_comma (CHR ''#'' # c)"
    by (simp add: replace_comma_def)
  moreover have "is_space CHR '' ''" by (simp add: is_space_def)
  ultimately show ?thesis
    by (simp add: split_def split_ws_space_append)
qed

lemma tokens_nonspace:
  assumes "split (replace_comma t) \<noteq> []"
  shows "\<exists>x\<in>set t. \<not> is_space x"
proof (rule ccontr)
  assume "\<not> (\<exists>x\<in>set t. \<not> is_space x)"
  then have sp: "\<forall>c\<in>set t. is_space c" by blast
  then have "replace_comma t = t" by (rule replace_comma_spaces)
  then have "split (replace_comma t) = []"
    using sp by (simp add: split_def split_ws_spaces)
  with assms show False by simp
qed

lemma rstrip_Cons:
  assumes "\<not> is_space h"
  shows "\<exists>z. rstrip (h # y) = h # z"
proof (cases "\<forall>x\<in>set (rev y). is_space x")
  case True
  then have "dropWhile is_space (rev y @ [h]) = [h]"
    using assms by (simp add: dropWhile_append)
  then show ?thesis by (simp add: rstrip_def)
next
  case False
  then have "dropWhile is_space (rev y @ [h]) = dropWhile is_space (rev y) @ [h]"
    by (simp add: dropWhile_append)
  then show ?thesis by (simp add: rstrip_def)
qed

lemma strip_first_char:
  assumes "\<exists>x\<in>set t. \<not> is_space x"
  shows "\<exists>h z. \<not> is_space h \<and> dropWhile is_space t \<noteq> [] \<and> h = hd (dropWhile is_space t)
           \<and> strip (t @ r) = h # z"
proof -
  from assms have ne: "dropWhile is_space t \<noteq> []" by (simp add: dropWhile_eq_Nil_conv)
  then obtain h t' where d: "dropWhile is_space t = h # t'" by (cases "dropWhile is_space t") auto
  have h: "\<not> is_space h" using d hd_dropWhile [OF ne] by simp
  from assms obtain x where "x \<in> set t" "\<not> is_space x" by blast
  then have "dropWhile is_space (t @ r) = dropWhile is_space t @ r"
    by (rule dropWhile_append1)
  then have "lstrip (t @ r) = h # (t' @ r)" by (simp add: lstrip_def d)
  moreover obtain z where "rstrip (h # (t' @ r)) = h # z" using rstrip_Cons [OF h] by blast
  ultimately have "strip (t @ r) = h # z" by (simp add: strip_def)
  with h ne d show ?thesis by simp
qed

lemma blank_or_comment_Cons: "blank_or_comment (h # z) = (h = CHR ''#'')"
  by (simp add: blank_or_comment_def startswith_def)

lemma blank_or_comment_extend:
  assumes "\<exists>x\<in>set t. \<not> is_space x"
  shows "blank_or_comment (strip (t @ r)) = blank_or_comment (strip t)"
proof -
  obtain h z where 1: "h = hd (dropWhile is_space t)" "strip (t @ r) = h # z"
    using strip_first_char [OF assms, of r] by blast
  obtain h' z' where 2: "h' = hd (dropWhile is_space t)" "strip (t @ []) = h' # z'"
    using strip_first_char [OF assms, of "[]"] by blast
  show ?thesis using 1 2 by (simp add: blank_or_comment_Cons)
qed

lemma set_strip: "set (strip s) \<subseteq> set s"
proof -
  obtain ws1 ws2 where "s = ws1 @ strip s @ ws2" using strip_decompose by blast
  then have "set s = set ws1 \<union> set (strip s) \<union> set ws2"
    by (metis set_append sup_assoc)
  then show ?thesis by blast
qed

lemma encode_branch_extra:
  assumes "3 \<le> length ops"
  shows "encode_branch lbls opc (ops @ extra) p = encode_branch lbls opc ops p"
proof -
  obtain a b c rest where "ops = a # b # c # rest"
    using assms by (auto intro: length_ge_3E [of ops])
  then show ?thesis by (simp add: encode_branch_def numeral_2_eq_2)
qed

lemma encode_rtype_extra:
  assumes "3 \<le> length ops"
  shows "encode_rtype opc (ops @ extra) = encode_rtype opc ops"
proof -
  obtain a b c rest where "ops = a # b # c # rest"
    using assms by (auto intro: length_ge_3E [of ops])
  then show ?thesis by (simp add: encode_rtype_def numeral_2_eq_2)
qed

lemma encode_itype_extra:
  assumes "3 \<le> length ops"
  shows "encode_itype opc (ops @ extra) = encode_itype opc ops"
proof -
  obtain a b c rest where "ops = a # b # c # rest"
    using assms by (auto intro: length_ge_3E [of ops])
  then show ?thesis by (simp add: encode_itype_def numeral_2_eq_2)
qed

lemma encode_jal_extra:
  assumes "2 \<le> length ops"
  shows "encode_jump lbls ''jal'' (ops @ extra) p = encode_jump lbls ''jal'' ops p"
proof -
  obtain a b rest where "ops = a # b # rest"
    using assms by (auto intro: length_ge_2E [of ops])
  then show ?thesis by (simp add: encode_jump_def)
qed

lemma encode_jalr_extra:
  assumes "3 \<le> length ops"
  shows "encode_jump lbls ''jalr'' (ops @ extra) p = encode_jump lbls ''jalr'' ops p"
proof -
  obtain a b c rest where "ops = a # b # c # rest"
    using assms by (auto intro: length_ge_3E [of ops])
  then show ?thesis by (simp add: encode_jump_def numeral_2_eq_2)
qed

lemma encode_line_extra:
  assumes "split (replace_comma l1) = m # ops"
    and "split (replace_comma l2) = (m # ops) @ extra"
    and "operands_read (lower m) \<le> length ops"
  shows "encode_line lbls l2 p = encode_line lbls l1 p"
proof -
  consider (b) "lower m \<in> set [''beq'', ''bne'', ''blt'', ''bge'']"
    | (jal) "lower m = ''jal''"
    | (jalr) "lower m = ''jalr''"
    | (r) "lower m \<in> set [''add'', ''sub'', ''and'', ''or'', ''xor'']"
    | (i) "lower m \<in> set [''addi'', ''andi'', ''ori'', ''xori'']"
    | (other) "lower m \<notin> set [''beq'', ''bne'', ''blt'', ''bge'', ''jal'', ''jalr'', ''add'', ''sub'',
                 ''and'', ''or'', ''xor'', ''addi'', ''andi'', ''ori'', ''xori'']"
    by auto
  then show ?thesis
  proof cases
    case b
    then have "3 \<le> length ops" using assms(3) by (auto simp: operands_read_def)
    then show ?thesis
      using b by (simp add: encode_line_def assms(1,2) Let_def encode_branch_extra)
  next
    case jal
    then have "2 \<le> length ops" using assms(3) by (simp add: operands_read_def)
    then show ?thesis
      using jal by (simp add: encode_line_def assms(1,2) Let_def encode_jal_extra)
  next
    case jalr
    then have "3 \<le> length ops" using assms(3) by (simp add: operands_read_def)
    then show ?thesis
      using jalr by (simp add: encode_line_def assms(1,2) Let_def encode_jalr_extra)
  next
    case r
    then have "3 \<le> length ops" using assms(3) by (auto simp: operands_read_def)
    then show ?thesis
      using r by (auto simp: encode_line_def assms(1,2) Let_def encode_rtype_extra)
  next
    case i
    then have "3 \<le> length ops" using assms(3) by (auto simp: operands_read_def)
    then show ?thesis
      using i by (auto simp: encode_line_def assms(1,2) Let_def encode_itype_extra)
  next
    case other
    then show ?thesis
      by (simp add: encode_line_def assms(1,2) Let_def)
  qed
qed

lemma first_pass_cong_line:
  assumes "blank_or_comment (strip l) = blank_or_comment (strip l')"
    and "CHR '':'' \<notin> set (strip l)" and "CHR '':'' \<notin> set (strip l')"
  shows "first_pass L p (before @ l # after) = first_pass L p (before @ l' # after)"
  using assms by (induction before arbitrary: L p) (simp_all add: Let_def)

lemma second_pass_cong_line:
  assumes "blank_or_comment (strip l) = blank_or_comment (strip l')"
    and "CHR '':'' \<notin> set (strip l)" and "CHR '':'' \<notin> set (strip l')"
    and "\<And>p. encode_line lbls (strip l) p = encode_line lbls (strip l') p"
  shows "second_pass lbls p mc (before @ l # after) = second_pass lbls p mc (before @ l' # after)"
  using assms(1-3)
proof (induction before arbitrary: p mc)
  case Nil
  then show ?case by (simp add: Let_def assms(4))
next
  case (Cons b before)
  then show ?case by (simp add: Let_def)
qed

lemma second_pass_length:
  "second_pass lbls p mc ls = Inr ws \<Longrightarrow> length ws = length mc + length (filter instruction_line ls)"
proof (induction ls arbitrary: p mc)
  case Nil
  then show ?case by simp
next
  case (Cons l ls)
  show ?case
  proof (cases "instruction_line l")
    case True
    then obtain code where c: "encode_line lbls (strip l) p = Inr code"
      using Cons.prems by (cases "encode_line lbls (strip l) p") (simp_all add: instruction_line_def Let_def)
    then have "second_pass lbls (p + 4) (mc @ [code]) ls = Inr ws"
      using Cons.prems True by (simp add: instruction_line_def Let_def)
    from Cons.IH [OF this] show ?thesis using True by simp
  next
    case False
    then have "second_pass lbls p mc ls = Inr ws"
      using Cons.prems by (auto simp: instruction_line_def Let_def)
    from Cons.IH [OF this] show ?thesis using False by simp
  qed
qed

text \<open>
  Claim C6 (text from a \<open>#\<close> onward is a comment and does not affect the emitted
  code; only a \<open>:\<close> before the instruction text makes a label line). The program's
  own example puts a \<open>#\<close> comment after its instructions, but nothing removes such a
  comment: \<open>jalr x1, x2\<close> assembles to one word, while with the trailing comment
  \<open># ret\<close> the \<open>#\<close> is read as the optional immediate and the run raises
  ValueError; and \<open>addi x1, x0, 1 # a:b\<close> is taken as a label definition because of
  the \<open>:\<close> in its comment, so the instruction is dropped without a word.
\<close>

theorem trailing_comment_changes_result:
  "fst (assemble init ''jalr x1, x2 # ret'') = Inl ValueError
   \<and> fst (assemble init ''jalr x1, x2'') = Inr [0x000100E7]
   \<and> fst (assemble init ''addi x1, x0, 1 # a:b'') = Inr []
   \<and> fst (assemble init ''addi x1, x0, 1'') = Inr [0x00100093]"
  by code_simp

text \<open>
  Where a trailing comment does no harm. The rest of a line after a \<open>#\<close> is split
  into tokens like the line before it, and an encoder ignores the tokens after the
  operands it reads. So, for a line without \<open>:\<close> whose mnemonic has all the operands
  its encoder reads, appending a blank, \<open>#\<close> and a comment without \<open>:\<close> changes
  neither the result of \<open>assemble\<close> nor the symbol table; and the words of a
  successful run are as many as the lines that are not blank, do not start with \<open>#\<close>
  and contain no \<open>:\<close>.
\<close>

lemma trailing_tokens_ignored:
  "(split_on CHR ''\<newline>'' (strip src) = before @ t # after
      \<and> split_on CHR ''\<newline>'' (strip src') = before @ (t @ '' #'' @ c) # after
      \<and> split (replace_comma t) = m # ops \<and> operands_read (lower m) \<le> length ops
      \<and> CHR '':'' \<notin> set t \<and> CHR '':'' \<notin> set c
    \<longrightarrow> assemble self src' = assemble self src)
   \<and> (fst (assemble self src) = Inr ws
    \<longrightarrow> length ws = length (filter instruction_line (split_on CHR ''\<newline>'' (strip src))))"
proof (intro conjI impI)
  assume h: "split_on CHR ''\<newline>'' (strip src) = before @ t # after
      \<and> split_on CHR ''\<newline>'' (strip src') = before @ (t @ '' #'' @ c) # after
      \<and> split (replace_comma t) = m # ops \<and> operands_read (lower m) \<le> length ops
      \<and> CHR '':'' \<notin> set t \<and> CHR '':'' \<notin> set c"
  define u where "u = t @ '' #'' @ c"
  have ns: "\<exists>x\<in>set t. \<not> is_space x"
    using h by (intro tokens_nonspace) simp
  have 1: "blank_or_comment (strip u) = blank_or_comment (strip t)"
    unfolding u_def using ns by (rule blank_or_comment_extend)
  have 2: "CHR '':'' \<notin> set (strip t)"
    using h set_strip [of t] by blast
  have "CHR '':'' \<notin> set u" using h by (simp add: u_def)
  then have 3: "CHR '':'' \<notin> set (strip u)"
    using set_strip [of u] by blast
  have 4: "encode_line lbls (strip u) p = encode_line lbls (strip t) p" for lbls p
  proof (rule encode_line_extra)
    show "split (replace_comma (strip t)) = m # ops"
      using h by (simp add: tokens_strip)
    show "split (replace_comma (strip u)) = (m # ops) @ split (replace_comma (CHR ''#'' # c))"
      unfolding u_def using h by (simp only: tokens_strip tokens_comment)
    show "operands_read (lower m) \<le> length ops" using h by simp
  qed
  have f: "first_pass L p (before @ u # after) = first_pass L p (before @ t # after)" for L p
    using 1 3 2 by (rule first_pass_cong_line)
  have s: "second_pass lbls p mc (before @ u # after) = second_pass lbls p mc (before @ t # after)"
    for lbls p mc
    using 1 3 2 4 by (rule second_pass_cong_line)
  have "split_on CHR ''\<newline>'' (strip src') = before @ u # after"
    using h by (simp add: u_def)
  then show "assemble self src' = assemble self src"
    using h by (simp add: assemble_def Let_def f s)
next
  assume "fst (assemble self src) = Inr ws"
  then have "second_pass (first_pass (labels self) 0 (split_on CHR ''\<newline>'' (strip src))) 0 []
               (split_on CHR ''\<newline>'' (strip src)) = Inr ws"
    by (simp add: assemble_def Let_def)
  from second_pass_length [OF this]
  show "length ws = length (filter instruction_line (split_on CHR ''\<newline>'' (strip src)))"
    by simp
qed

text \<open>
  An instance: the comment \<open># skip\<close> after \<open>jal x0, 8\<close> changes nothing, and the
  three instruction lines give three words.
\<close>

lemma trailing_tokens_example:
  "assemble init ''addi x1, x0, 10 # x1 = 10\<newline>jal x0, 8 # skip\<newline>nop''
     = assemble init ''addi x1, x0, 10 # x1 = 10\<newline>jal x0, 8\<newline>nop''
   \<and> fst (assemble init ''addi x1, x0, 10 # x1 = 10\<newline>jal x0, 8\<newline>nop'')
       = Inr [0x00A00093, 0x0000006F, 0x00000013]
   \<and> length [0x00A00093, 0x0000006F, 0x00000013 :: int]
       = length (filter instruction_line
           (split_on CHR ''\<newline>'' (strip ''addi x1, x0, 10 # x1 = 10\<newline>jal x0, 8\<newline>nop'')))"
proof -
  let ?src = "''addi x1, x0, 10 # x1 = 10\<newline>jal x0, 8\<newline>nop''"
  let ?src' = "''addi x1, x0, 10 # x1 = 10\<newline>jal x0, 8 # skip\<newline>nop''"
  have 1: "split_on CHR ''\<newline>'' (strip ?src) = [''addi x1, x0, 10 # x1 = 10''] @ ''jal x0, 8'' # [''nop'']
      \<and> split_on CHR ''\<newline>'' (strip ?src')
          = [''addi x1, x0, 10 # x1 = 10''] @ (''jal x0, 8'' @ '' #'' @ '' skip'') # [''nop'']
      \<and> split (replace_comma ''jal x0, 8'') = ''jal'' # [''x0'', ''8'']
      \<and> operands_read (lower ''jal'') \<le> length [''x0'', ''8'']
      \<and> CHR '':'' \<notin> set ''jal x0, 8'' \<and> CHR '':'' \<notin> set '' skip''"
    by code_simp
  have 2: "fst (assemble init ?src) = Inr [0x00A00093, 0x0000006F, 0x00000013]"
    by code_simp
  from trailing_tokens_ignored [of ?src "[''addi x1, x0, 10 # x1 = 10'']" "''jal x0, 8''" "[''nop'']"
      ?src' "'' skip''" "''jal''" "[''x0'', ''8'']" init "[0x00A00093, 0x0000006F, 0x00000013]"] 1 2
  show ?thesis by simp
qed

end
